theory Spec2Isabelle
  imports Main "HOL-Library.Word"
begin

unbundle bit_operations_syntax

section \<open>The platform's Date object\<close>

text \<open>
  A JavaScript \<open>Date\<close> is a time value: the number of milliseconds since
  1970-01-01T00:00:00Z. Comparing two dates with \<open>>=\<close> or \<open><\<close> compares
  their time values. The calendar accessors (\<open>getMonth\<close>, \<open>getDate\<close>, ...) and
  the seven-argument constructor work in the local time zone of the browser.
  The zone is the parameter \<open>tz\<close>: minutes east of UTC, taken as constant
  (Europe/Berlin is at \<open>tz = 60\<close> from 2025-10-26 to 2026-03-29; daylight
  saving switches are outside this model).
\<close>

type_synonym date = int

definition msPerDay :: int where
  "msPerDay = 86400000"

text \<open>Day number (days since the epoch) of a proleptic Gregorian date, month 1..12.\<close>

definition daysFromCivil :: "int \<Rightarrow> int \<Rightarrow> int \<Rightarrow> int" where
  "daysFromCivil y m d =
     (let y' = (if m \<le> 2 then y - 1 else y);
          era = y' div 400;
          yoe = y' - era * 400;
          doy = (153 * (if 2 < m then m - 3 else m + 9) + 2) div 5 + d - 1;
          doe = yoe * 365 + yoe div 4 - yoe div 100 + doy
      in era * 146097 + doe - 719468)"

text \<open>The inverse: year, month (1..12) and day of month of a day number.\<close>

definition civilFromDays :: "int \<Rightarrow> int \<times> int \<times> int" where
  "civilFromDays z0 =
     (let z = z0 + 719468;
          era = z div 146097;
          doe = z - era * 146097;
          yoe = (doe - doe div 1460 + doe div 36524 - doe div 146096) div 365;
          doy = doe - (365 * yoe + yoe div 4 - yoe div 100);
          mp = (5 * doy + 2) div 153;
          d = doy - (153 * mp + 2) div 5 + 1;
          m = (if mp < 10 then mp + 3 else mp - 9)
      in (yoe + era * 400 + (if m \<le> 2 then 1 else 0), m, d))"

text \<open>
  \<open>new Date(year, month, date, hours, minutes, seconds, ms)\<close> with a zero-based
  month; a month or date out of range carries over, as MakeDay does.
\<close>

definition makeDay :: "int \<Rightarrow> int \<Rightarrow> int \<Rightarrow> int" where
  "makeDay year month dt =
     daysFromCivil (year + month div 12) (month mod 12 + 1) 1 + dt - 1"

definition newDate :: "int \<Rightarrow> int \<Rightarrow> int \<Rightarrow> int \<Rightarrow> int \<Rightarrow> int \<Rightarrow> int \<Rightarrow> int \<Rightarrow> date" where
  "newDate tz year month dt h mi s ms =
     makeDay year month dt * msPerDay + h * 3600000 + mi * 60000 + s * 1000 + ms
       - tz * 60000"

definition localTime :: "int \<Rightarrow> date \<Rightarrow> int" where
  "localTime tz t = t + tz * 60000"

definition getFullYear :: "int \<Rightarrow> date \<Rightarrow> int" where
  "getFullYear tz t = fst (civilFromDays (localTime tz t div msPerDay))"

definition getMonth :: "int \<Rightarrow> date \<Rightarrow> int" where
  "getMonth tz t = fst (snd (civilFromDays (localTime tz t div msPerDay))) - 1"

definition getDate :: "int \<Rightarrow> date \<Rightarrow> int" where
  "getDate tz t = snd (snd (civilFromDays (localTime tz t div msPerDay)))"

definition getHours :: "int \<Rightarrow> date \<Rightarrow> int" where
  "getHours tz t = (localTime tz t mod msPerDay) div 3600000"

definition getMinutes :: "int \<Rightarrow> date \<Rightarrow> int" where
  "getMinutes tz t = (localTime tz t mod 3600000) div 60000"

text \<open>
  The instant an ISO-8601 string \<open>YYYY-MM-DDThh:mm:ss+HH:MM\<close> denotes, from its
  fields; \<open>off\<close> is the offset of the string in minutes.
\<close>

definition isoInstant :: "int \<Rightarrow> int \<Rightarrow> int \<Rightarrow> int \<Rightarrow> int \<Rightarrow> int \<Rightarrow> int \<Rightarrow> date" where
  "isoInstant y m d h mi s off =
     daysFromCivil y m d * msPerDay + h * 3600000 + mi * 60000 + s * 1000 - off * 60000"

section \<open>WR_TIME: door release times\<close>

record time_cfg =
  dailyUnlockHour :: int
  dailyUnlockMinute :: int
  devTestUnlockISO :: date
  devTestDay :: int

text \<open>
  The configuration of the current module: the test release of door 2 is the
  moment the script was loaded (\<open>new Date().toISOString()\<close>), here \<open>loaded\<close>.
\<close>

definition WR_TIME_CFG :: "date \<Rightarrow> time_cfg" where
  "WR_TIME_CFG loaded =
     \<lparr>dailyUnlockHour = 9, dailyUnlockMinute = 0,
      devTestUnlockISO = loaded, devTestDay = 2\<rparr>"

text \<open>The configuration of the backup module: \<open>'2025-11-14T18:35:00+01:00'\<close>.\<close>

definition WR_TIME_CFG_backup :: time_cfg where
  "WR_TIME_CFG_backup =
     \<lparr>dailyUnlockHour = 9, dailyUnlockMinute = 0,
      devTestUnlockISO = isoInstant 2025 11 14 18 35 0 60, devTestDay = 2\<rparr>"

definition getDoorUnlockDate :: "time_cfg \<Rightarrow> int \<Rightarrow> int \<Rightarrow> date" where
  "getDoorUnlockDate cfg tz day =
     newDate tz 2025 11 day (dailyUnlockHour cfg) (dailyUnlockMinute cfg) 0 0"

definition isDoorUnlocked :: "time_cfg \<Rightarrow> int \<Rightarrow> int \<Rightarrow> date \<Rightarrow> bool" where
  "isDoorUnlocked cfg tz day now =
     (if day = devTestDay cfg \<and> devTestUnlockISO cfg \<le> now then True
      else getDoorUnlockDate cfg tz day \<le> now)"

text \<open>\<open>getCurrentDecemberDay\<close> of the WR_TIME module; \<open>None\<close> is \<open>null\<close>.\<close>

definition getCurrentDecemberDay :: "int \<Rightarrow> date \<Rightarrow> int option" where
  "getCurrentDecemberDay tz now =
     (let month = getMonth tz now + 1; dt = getDate tz now
      in if month = 12 then Some (min dt 24)
         else if 12 < month then Some 24
         else None)"

section \<open>TimeBerlin and the application's own availability check\<close>

definition TimeBerlin_getCurrentDecemberDay :: "int \<Rightarrow> date \<Rightarrow> int option" where
  "TimeBerlin_getCurrentDecemberDay tz now =
     (let month = getMonth tz now + 1; day = getDate tz now
      in if month = 12 \<and> 1 \<le> day \<and> day \<le> 24 then Some day
         else if 12 < month then Some 24
         else None)"

text \<open>\<open>WinterRallyeApp.isPuzzleAvailable(day, currentTime)\<close>.\<close>

definition isPuzzleAvailable :: "int \<Rightarrow> int \<Rightarrow> date \<Rightarrow> bool" where
  "isPuzzleAvailable tz day currentTime =
     (let currentMonth = getMonth tz currentTime + 1;
          currentDay = getDate tz currentTime
      in if currentMonth < 12 then False
         else if currentMonth = 12 \<and> currentDay < day then False
         else True)"

section \<open>Strings\<close>

text \<open>
  A JavaScript string is a sequence of UTF-16 code units. The model covers the
  strings whose code units are below 256 (ISO-8859-1): a \<open>char\<close> is the
  code unit with that number, so \<open>CHR 0xE4\<close> is a-umlaut, \<open>CHR 0xF6\<close>
  o-umlaut, \<open>CHR 0xFC\<close> u-umlaut and \<open>CHR 0xDF\<close> sharp s. On this range
  \<open>toLowerCase\<close> adds 32 to A..Z and to the capital letters 0xC0..0xDE other
  than the multiplication sign 0xD7, and \<open>\s\<close> matches tab, line feed,
  vertical tab, form feed, carriage return, space and no-break space.
\<close>

definition charCode :: "char \<Rightarrow> nat" where
  "charCode c = of_char c"

definition isWhiteSpace :: "char \<Rightarrow> bool" where
  "isWhiteSpace c = (charCode c \<in> {9, 10, 11, 12, 13, 32, 160})"

definition toLowerCaseChar :: "char \<Rightarrow> char" where
  "toLowerCaseChar c =
     (let n = charCode c
      in if (65 \<le> n \<and> n \<le> 90) \<or> (192 \<le> n \<and> n \<le> 222 \<and> n \<noteq> 215)
         then char_of (n + 32) else c)"

definition toLowerCase :: "string \<Rightarrow> string" where
  "toLowerCase s = map toLowerCaseChar s"

definition trim :: "string \<Rightarrow> string" where
  "trim s = rev (dropWhile isWhiteSpace (rev (dropWhile isWhiteSpace s)))"

text \<open>
  \<open>replace(/\s+/g, ' ')\<close>: every maximal run of white space becomes one space.
  The flag says that the previous character belonged to a run already replaced.
\<close>

fun collapseRuns :: "bool \<Rightarrow> string \<Rightarrow> string" where
  "collapseRuns inRun [] = []"
| "collapseRuns inRun (c # cs) =
     (if isWhiteSpace c
      then (if inRun then collapseRuns True cs else CHR '' '' # collapseRuns True cs)
      else c # collapseRuns False cs)"

definition collapseSpaces :: "string \<Rightarrow> string" where
  "collapseSpaces s = collapseRuns False s"

text \<open>\<open>replace(/c/g, r)\<close> for a single character \<open>c\<close>.\<close>

definition replaceChar :: "char \<Rightarrow> string \<Rightarrow> string \<Rightarrow> string" where
  "replaceChar c r s = concat (map (\<lambda>x. if x = c then r else [x]) s)"

text \<open>\<open>replace(/\s/g, '')\<close>, and the same for \<open>/\s+/g\<close>.\<close>

definition stripWhiteSpace :: "string \<Rightarrow> string" where
  "stripWhiteSpace s = filter (\<lambda>c. \<not> isWhiteSpace c) s"

definition removePunctuation :: "string \<Rightarrow> string" where
  "removePunctuation s = filter (\<lambda>c. c \<notin> set ''.,;:!?-'') s"

text \<open>\<open>s.split(sep)\<close> for a one-character separator; the empty string gives \<open>['']\<close>.\<close>

fun split :: "char \<Rightarrow> string \<Rightarrow> string list" where
  "split sep [] = [[]]"
| "split sep (c # cs) =
     (if c = sep then [] # split sep cs
      else (case split sep cs of
              [] \<Rightarrow> [[c]]
            | w # ws \<Rightarrow> (c # w) # ws))"

section \<open>AnswersStore: normalising and validating a stage-2 answer\<close>

record stage2_config =
  normalize :: "string option"
  accepted :: "string list option"
  answer_hashes :: "string list option"
  salt :: "string option"

text \<open>One step of the \<open>switch\<close>; a name that matches no case leaves the text as it is.\<close>

definition applyRule :: "string \<Rightarrow> string \<Rightarrow> string" where
  "applyRule normalized rule =
     (if rule = ''lowercase'' then toLowerCase normalized
      else if rule = ''trim'' then trim normalized
      else if rule = ''collapse-spaces'' then collapseSpaces normalized
      else if rule = ''replace-'' @ [CHR 0xE4] @ ''->ae'' then replaceChar (CHR 0xE4) ''ae'' normalized
      else if rule = ''replace-'' @ [CHR 0xF6] @ ''->oe'' then replaceChar (CHR 0xF6) ''oe'' normalized
      else if rule = ''replace-'' @ [CHR 0xFC] @ ''->ue'' then replaceChar (CHR 0xFC) ''ue'' normalized
      else if rule = ''replace-'' @ [CHR 0xDF] @ ''->ss'' then replaceChar (CHR 0xDF) ''ss'' normalized
      else if rule = ''remove-spaces'' then stripWhiteSpace normalized
      else if rule = ''remove-punctuation'' then removePunctuation normalized
      else normalized)"

text \<open>The \<open>for\<close> loop over the rules, in order.\<close>

definition applyRules :: "string list \<Rightarrow> string \<Rightarrow> string" where
  "applyRules rules answer = foldl applyRule answer rules"

text \<open>\<open>(config.normalize || 'lowercase, trim, collapse-spaces').split(',').map(trim)\<close>.\<close>

definition normalizeRules :: "stage2_config \<Rightarrow> string list" where
  "normalizeRules config =
     (let normalizeRule =
            (case normalize config of
               None \<Rightarrow> ''lowercase, trim, collapse-spaces''
             | Some r \<Rightarrow> if r = [] then ''lowercase, trim, collapse-spaces'' else r)
      in map trim (split (CHR '','') normalizeRule))"

text \<open>
  \<open>normalizeAnswer\<close>. An empty answer gives the empty string. The \<open>catch\<close>
  block of the source is reached only when \<open>config\<close> is not an object or
  \<open>config.normalize\<close> is not a string, which the types here exclude.
\<close>

definition normalizeAnswer :: "string \<Rightarrow> stage2_config \<Rightarrow> string" where
  "normalizeAnswer answer config =
     (if answer = [] then []
      else applyRules (normalizeRules config) answer)"

text \<open>
  \<open>window.SecurityStatic.validateAnswerHash(answer, hash, salt)\<close> lives outside
  this module: \<open>None\<close> for the whole checker means that \<open>SecurityStatic\<close> is
  not loaded; a call that answers \<open>None\<close> has thrown.
\<close>

type_synonym hash_checker = "string \<Rightarrow> string \<Rightarrow> string \<Rightarrow> bool option"

text \<open>What \<open>validateAnswer\<close> writes to the console on its way out.\<close>

datatype validation_log =
    LogViaAccepted bool
  | LogHashValid
  | LogHashInvalid
  | WarnSecurityStaticMissing
  | LogNothingConfigured
  | ErrorDuringValidation

fun hashLoop :: "hash_checker \<Rightarrow> string \<Rightarrow> string \<Rightarrow> string list \<Rightarrow> bool \<times> validation_log" where
  "hashLoop check normalizedAnswer slt [] = (False, LogHashInvalid)"
| "hashLoop check normalizedAnswer slt (h # hs) =
     (case check normalizedAnswer h slt of
        None \<Rightarrow> (False, ErrorDuringValidation)
      | Some True \<Rightarrow> (True, LogHashValid)
      | Some False \<Rightarrow> hashLoop check normalizedAnswer slt hs)"

definition validateAnswerLogged ::
  "hash_checker option \<Rightarrow> string \<Rightarrow> stage2_config \<Rightarrow> bool \<times> validation_log" where
  "validateAnswerLogged securityStatic normalizedAnswer config =
     (case accepted config of
        Some acc \<Rightarrow>
          (let isAccepted = (normalizedAnswer \<in> set acc)
           in (isAccepted, LogViaAccepted isAccepted))
      | None \<Rightarrow>
          (case answer_hashes config of
             Some hashes \<Rightarrow>
               (case securityStatic of
                  Some check \<Rightarrow>
                    hashLoop check normalizedAnswer
                      (case salt config of None \<Rightarrow> [] | Some s \<Rightarrow> s) hashes
                | None \<Rightarrow> (False, WarnSecurityStaticMissing))
           | None \<Rightarrow> (True, LogNothingConfigured)))"

text \<open>The value the caller receives: the boolean alone.\<close>

definition validateAnswer :: "hash_checker option \<Rightarrow> string \<Rightarrow> stage2_config \<Rightarrow> bool" where
  "validateAnswer securityStatic normalizedAnswer config =
     fst (validateAnswerLogged securityStatic normalizedAnswer config)"

section \<open>Numbers as text, and the rolling hash\<close>

definition digitChar :: "int \<Rightarrow> char" where
  "digitChar n = (''0123456789abcdefghijklmnopqrstuvwxyz'' ! nat (n mod 36))"

text \<open>\<open>n.toString(radix)\<close> for a non-negative integer and a radix from 2 to 36.\<close>

function digitsOf :: "int \<Rightarrow> int \<Rightarrow> string" where
  "digitsOf radix n =
     (if n < radix \<or> radix < 2 then [digitChar n]
      else digitsOf radix (n div radix) @ [digitChar (n mod radix)])"
  by pat_completeness auto
termination
  by (relation "measure (\<lambda>(radix, n). nat n)") (auto intro: int_div_less_self)

text \<open>\<open>n.toString(radix)\<close> for any integer: a minus sign, then the digits.\<close>

definition intToString :: "int \<Rightarrow> int \<Rightarrow> string" where
  "intToString radix i =
     (if i < 0 then CHR ''-'' # digitsOf radix (- i) else digitsOf radix i)"

text \<open>
  The loop \<open>hash = ((hash << 5) - hash) + char; hash = hash & hash\<close>: each round
  ends with a conversion to a signed 32-bit integer, so the arithmetic is that
  of 32-bit words, read as signed at the end.
\<close>

definition hashStep :: "32 word \<Rightarrow> char \<Rightarrow> 32 word" where
  "hashStep hash c = (push_bit 5 hash - hash) + of_nat (charCode c)"

definition rollingHash :: "string \<Rightarrow> int" where
  "rollingHash data = sint (foldl hashStep 0 data)"

section \<open>QRVerify: tokens, keys and the expected data\<close>

text \<open>
  JSON data, as the payload of a token and the expected data of a caller hold
  them. Numbers are the integers (a day, a time stamp); an object is the list
  of its entries.
\<close>

datatype json =
    JNull
  | JBool bool
  | JNum int
  | JStr string
  | JArr "json list"
  | JObj "(string \<times> json) list"

text \<open>
  What \<open>payload[key]\<close> finds on an object made by \<open>JSON.parse\<close>: a value of
  the object itself, a member inherited from \<open>Object.prototype\<close>, or
  \<open>undefined\<close>.
\<close>

datatype property = Undefined | Own json | Inherited

definition objectPrototypeKeys :: "string list" where
  "objectPrototypeKeys =
     [''constructor'', ''__proto__'', ''hasOwnProperty'', ''isPrototypeOf'',
      ''propertyIsEnumerable'', ''toLocaleString'', ''toString'', ''valueOf'',
      ''__defineGetter__'', ''__defineSetter__'', ''__lookupGetter__'',
      ''__lookupSetter__'']"

definition getProperty :: "(string \<times> json) list \<Rightarrow> string \<Rightarrow> property" where
  "getProperty obj k =
     (case map_of obj k of
        Some v \<Rightarrow> Own v
      | None \<Rightarrow> if k \<in> set objectPrototypeKeys then Inherited else Undefined)"

text \<open>
  \<open>actualValue === expectedValue\<close>, the expected value being JSON data of the
  caller: primitives are compared by value; an array or object of the payload
  was created by the parser and is identical to nothing the caller holds, and
  neither is an inherited member.
\<close>

fun strictEquals :: "property \<Rightarrow> json \<Rightarrow> bool" where
  "strictEquals (Own JNull) JNull = True"
| "strictEquals (Own (JBool a)) (JBool b) = (a = b)"
| "strictEquals (Own (JNum a)) (JNum b) = (a = b)"
| "strictEquals (Own (JStr a)) (JStr b) = (a = b)"
| "strictEquals _ _ = False"

text \<open>
  The exceptions of \<open>crypto.subtle\<close>: \<open>importKey\<close> refusing the key
  material, and \<open>sign\<close> called with a key whose usages do not include
  \<open>'sign'\<close>.
\<close>

datatype crypto_error = ImportKeyError | InvalidAccessError

text \<open>The messages of the \<open>error\<close> field, as values.\<close>

datatype qr_error =
    UnknownKeyId "string option"
  | InvalidSignature
  | InvalidSignatureFallback
  | RequiredFieldMissing string
  | FieldMismatch string json property
  | CryptoException crypto_error

record data_validation =
  dv_valid :: bool
  dv_error :: "qr_error option"

text \<open>
  \<open>validateExpectedData\<close>: the loop over \<open>Object.entries(expectedData)\<close>;
  the empty list stands for an absent or empty \<open>expectedData\<close>.
\<close>

fun validateExpectedData :: "(string \<times> json) list \<Rightarrow> (string \<times> json) list \<Rightarrow> data_validation" where
  "validateExpectedData payload [] = \<lparr>dv_valid = True, dv_error = None\<rparr>"
| "validateExpectedData payload ((k, expectedValue) # rest) =
     (let actualValue = getProperty payload k
      in if actualValue = Undefined
         then \<lparr>dv_valid = False, dv_error = Some (RequiredFieldMissing k)\<rparr>
         else if expectedValue \<noteq> JNull \<and> \<not> strictEquals actualValue expectedValue
         then \<lparr>dv_valid = False, dv_error = Some (FieldMismatch k expectedValue actualValue)\<rparr>
         else validateExpectedData payload rest)"

text \<open>
  What \<open>parseQRCode\<close> returns for a token it recognises. The payload is
  the JSON object decoded from the token; \<open>originalData\<close> is the text that
  was signed. A key id or signature of \<open>null\<close> is \<open>None\<close>.
\<close>

record parsed_qr =
  version :: string
  algorithm :: string
  keyId :: "string option"
  signature :: "string option"
  payload :: "(string \<times> json) list"
  originalData :: string

record key_data =
  kd_algorithm :: string
  key :: string
  kd_keyId :: string
  description :: string

text \<open>
  The Web Crypto API of the browser. A key remembers the usages it was imported
  for. \<open>rejectsKey\<close> says for which key material \<open>importKey\<close> throws, and
  \<open>hmacSha256\<close> is the HMAC-SHA256 of the data under the key material, as
  bytes. \<open>sign\<close> throws for a key that was not imported for signing.
\<close>

record crypto_key =
  material :: string
  usages :: "string list"

record subtle_crypto =
  rejectsKey :: "string \<Rightarrow> bool"
  hmacSha256 :: "string \<Rightarrow> string \<Rightarrow> 8 word list"

definition importKey :: "subtle_crypto \<Rightarrow> string \<Rightarrow> string list \<Rightarrow> crypto_error + crypto_key" where
  "importKey crypto keyBytes keyUsages =
     (if rejectsKey crypto keyBytes then Inl ImportKeyError
      else Inr \<lparr>material = keyBytes, usages = keyUsages\<rparr>)"

definition sign :: "subtle_crypto \<Rightarrow> crypto_key \<Rightarrow> string \<Rightarrow> crypto_error + 8 word list" where
  "sign crypto cryptoKey dataToSign =
     (if ''sign'' \<in> set (usages cryptoKey)
      then Inr (hmacSha256 crypto (material cryptoKey) dataToSign)
      else Inl InvalidAccessError)"

text \<open>\<open>b.toString(16).padStart(2, '0')\<close> for each byte, joined.\<close>

definition toHex :: "8 word list \<Rightarrow> string" where
  "toHex bytes =
     concat (map (\<lambda>b. let h = intToString 16 (uint b)
                       in if length h < 2 then CHR ''0'' # h else h) bytes)"

text \<open>
  The surroundings of the verifier: the loaded keys, and \<open>crypto.subtle\<close>,
  which is \<open>None\<close> in a browser without the Web Crypto API.
\<close>

record qr_env =
  publicKeys :: "string \<Rightarrow> key_data option"
  subtle :: "subtle_crypto option"

text \<open>The result object of a verification; \<open>timestamp\<close> is \<open>Date.now()\<close>.\<close>

record verification_result =
  valid :: bool
  error :: "qr_error option"
  res_algorithm :: string
  res_keyId :: "string option"
  res_payload :: "(string \<times> json) list option"
  timestamp :: int

text \<open>The FNV-style comparison of the fallback path.\<close>

definition fnvStep :: "32 word \<Rightarrow> char \<Rightarrow> 32 word" where
  "fnvStep hash0 c =
     (let hash = hash0 XOR of_nat (charCode c)
      in hash + (push_bit 1 hash + push_bit 4 hash + push_bit 7 hash
                 + push_bit 8 hash + push_bit 24 hash))"

definition simpleHashCompare :: "string \<Rightarrow> string option \<Rightarrow> bool" where
  "simpleHashCompare input expected =
     (let hash = foldl fnvStep 2166136261 input;
          computed = intToString 16 (uint hash)
      in Some computed = expected)"

text \<open>
  \<open>verifyHMACWebCrypto\<close>: the key is imported with the usages
  \<open>['verify']\<close> and then handed to \<open>sign\<close>. An exception leaves the
  function (\<open>Inl\<close>) and is caught in \<open>verifyHMAC\<close>.
\<close>

definition verifyHMACWebCrypto ::
  "subtle_crypto \<Rightarrow> int \<Rightarrow> parsed_qr \<Rightarrow> key_data \<Rightarrow> (string \<times> json) list
     \<Rightarrow> crypto_error + verification_result" where
  "verifyHMACWebCrypto crypto now parsed keyData expectedData =
     (case importKey crypto (key keyData) [''verify''] of
        Inl e \<Rightarrow> Inl e
      | Inr cryptoKey \<Rightarrow>
          (case sign crypto cryptoKey (originalData parsed) of
             Inl e \<Rightarrow> Inl e
           | Inr expectedSignature \<Rightarrow>
               (let expectedHex = toHex expectedSignature;
                    isValid = (signature parsed = Some expectedHex);
                    dataValid = validateExpectedData (payload parsed) expectedData
                in Inr \<lparr>valid = isValid \<and> dv_valid dataValid,
                        error = (if isValid then dv_error dataValid else Some InvalidSignature),
                        res_algorithm = ''HMAC'',
                        res_keyId = keyId parsed,
                        res_payload = Some (payload parsed),
                        timestamp = now\<rparr>)))"

definition verifyHMACFallback ::
  "int \<Rightarrow> parsed_qr \<Rightarrow> key_data \<Rightarrow> (string \<times> json) list \<Rightarrow> verification_result" where
  "verifyHMACFallback now parsed keyData expectedData =
     (let isValid = simpleHashCompare (key keyData @ originalData parsed) (signature parsed);
          dataValid = validateExpectedData (payload parsed) expectedData
      in \<lparr>valid = isValid \<and> dv_valid dataValid,
          error = (if isValid then dv_error dataValid else Some InvalidSignatureFallback),
          res_algorithm = ''HMAC-Fallback'',
          res_keyId = keyId parsed,
          res_payload = Some (payload parsed),
          timestamp = now\<rparr>)"

text \<open>The result built in the \<open>catch\<close> block of \<open>verifyHMAC\<close>.\<close>

definition hmacFailure :: "int \<Rightarrow> parsed_qr \<Rightarrow> qr_error \<Rightarrow> verification_result" where
  "hmacFailure now parsed e =
     \<lparr>valid = False, error = Some e, res_algorithm = ''HMAC'',
      res_keyId = keyId parsed, res_payload = None, timestamp = now\<rparr>"

definition verifyHMAC ::
  "qr_env \<Rightarrow> int \<Rightarrow> parsed_qr \<Rightarrow> (string \<times> json) list \<Rightarrow> verification_result" where
  "verifyHMAC env now parsed expectedData =
     (case (case keyId parsed of None \<Rightarrow> None | Some k \<Rightarrow> publicKeys env k) of
        None \<Rightarrow> hmacFailure now parsed (UnknownKeyId (keyId parsed))
      | Some keyData \<Rightarrow>
          (case subtle env of
             Some crypto \<Rightarrow>
               (case verifyHMACWebCrypto crypto now parsed keyData expectedData of
                  Inl e \<Rightarrow> hmacFailure now parsed (CryptoException e)
                | Inr r \<Rightarrow> r)
           | None \<Rightarrow> verifyHMACFallback now parsed keyData expectedData))"

definition QRVerify_getCacheKey :: "string \<Rightarrow> string" where
  "QRVerify_getCacheKey qrData = intToString 36 (rollingHash qrData)"

section \<open>AnswerUtil: verifying an answer behind a cache\<close>

record normalization =
  lowercase :: bool
  removeSpaces :: bool
  removeSpecialChars :: bool
  removeDiacritics :: bool

record cache_config =
  maxEntries :: nat
  ttl :: int

text \<open>
  The surroundings of \<open>AnswerUtil\<close>. \<open>createSecureHash = None\<close> says that
  \<open>window.SecurityStatic\<close> is not loaded; the function gives the \<open>hash\<close>
  field of its result, or \<open>None\<close> when it throws. \<open>regexTest pattern answer\<close>
  is \<open>new RegExp(pattern, 'i').test(answer)\<close>, \<open>None\<close> for a pattern that
  does not compile.
\<close>

record answer_env =
  createSecureHash :: "(string \<Rightarrow> string \<Rightarrow> string option) option"
  regexTest :: "string \<Rightarrow> string \<Rightarrow> bool option"
  normalization :: normalization
  cache :: cache_config

record puzzle_data =
  day :: "int option"
  answerHash :: "string option"
  answerHashes :: "string list option"
  answerPlaintext :: "string option"
  answerPattern :: "string option"

datatype answer_error = HashFailure | InvalidPattern

text \<open>
  The result objects of the verification; a field that an object does not
  have, or that holds \<open>null\<close>, is \<open>None\<close>.
\<close>

record answer_result =
  correct :: bool
  matchedHash :: "string option"
  ar_algorithm :: "string option"
  saltUsed :: "string option"
  ar_error :: "answer_error option"
  verificationTime :: "int option"

definition plainResult :: "bool \<Rightarrow> answer_result" where
  "plainResult c =
     \<lparr>correct = c, matchedHash = None, ar_algorithm = None, saltUsed = None,
      ar_error = None, verificationTime = None\<rparr>"

text \<open>
  \<open>diacriticsMap\<close>, and the character class of the regular expression in
  \<open>replaceDiacritics\<close>; a match is replaced by its entry in the map.
\<close>

definition diacriticsMap :: "(char \<times> string) list" where
  "diacriticsMap =
     [(CHR 0xE4, ''ae''), (CHR 0xF6, ''oe''), (CHR 0xFC, ''ue''), (CHR 0xDF, ''ss''),
      (CHR 0xC4, ''Ae''), (CHR 0xD6, ''Oe''), (CHR 0xDC, ''Ue''),
      (CHR 0xE0, ''a''), (CHR 0xE1, ''a''), (CHR 0xE2, ''a''), (CHR 0xE3, ''a''), (CHR 0xE5, ''a''),
      (CHR 0xE8, ''e''), (CHR 0xE9, ''e''), (CHR 0xEA, ''e''), (CHR 0xEB, ''e''),
      (CHR 0xEC, ''i''), (CHR 0xED, ''i''), (CHR 0xEE, ''i''), (CHR 0xEF, ''i''),
      (CHR 0xF2, ''o''), (CHR 0xF3, ''o''), (CHR 0xF4, ''o''), (CHR 0xF5, ''o''),
      (CHR 0xF9, ''u''), (CHR 0xFA, ''u''), (CHR 0xFB, ''u''),
      (CHR 0xF1, ''n''), (CHR 0xE7, ''c'')]"

definition diacriticsClass :: "char list" where
  "diacriticsClass =
     [CHR 0xE0, CHR 0xE1, CHR 0xE2, CHR 0xE3, CHR 0xE4, CHR 0xE5,
      CHR 0xE8, CHR 0xE9, CHR 0xEA, CHR 0xEB,
      CHR 0xEC, CHR 0xED, CHR 0xEE, CHR 0xEF,
      CHR 0xF2, CHR 0xF3, CHR 0xF4, CHR 0xF5, CHR 0xF6,
      CHR 0xF9, CHR 0xFA, CHR 0xFB, CHR 0xFC, CHR 0xF1, CHR 0xE7]"

definition replaceDiacritics :: "string \<Rightarrow> string" where
  "replaceDiacritics text =
     concat (map (\<lambda>c. if c \<in> set diacriticsClass
                        then (case map_of diacriticsMap c of Some r \<Rightarrow> r | None \<Rightarrow> [c])
                        else [c]) text)"

definition isAlphaNumeric :: "char \<Rightarrow> bool" where
  "isAlphaNumeric c =
     (let n = charCode c
      in (97 \<le> n \<and> n \<le> 122) \<or> (65 \<le> n \<and> n \<le> 90) \<or> (48 \<le> n \<and> n \<le> 57))"

definition AnswerUtil_normalizeAnswer :: "normalization \<Rightarrow> string \<Rightarrow> string" where
  "AnswerUtil_normalizeAnswer cfg answer =
     (let n1 = (if lowercase cfg then toLowerCase answer else answer);
          n2 = (if removeSpaces cfg then stripWhiteSpace n1 else n1);
          n3 = (if removeDiacritics cfg then replaceDiacritics n2 else n2);
          n4 = (if removeSpecialChars cfg then filter isAlphaNumeric n3 else n3)
      in n4)"

text \<open>\<open>parseHashFormat\<close>: algorithm, salt and hash of a stored hash value.\<close>

definition parseHashFormat :: "string \<Rightarrow> string \<times> string \<times> string" where
  "parseHashFormat hashValue =
     (case (if CHR '':'' \<in> set hashValue then split (CHR '':'') hashValue else []) of
        [a, s, h] \<Rightarrow> (a, s, h)
      | _ \<Rightarrow>
          (case (if CHR ''$'' \<in> set hashValue then split (CHR ''$'') hashValue else []) of
             [s, h] \<Rightarrow> (''SHA-256'', s, h)
           | _ \<Rightarrow> (''SHA-256'', [], hashValue)))"

definition fallbackHash :: "string \<Rightarrow> string \<Rightarrow> string" where
  "fallbackHash input slt =
     slt @ ''$'' @ intToString 16 (\<bar>rollingHash (slt @ input)\<bar>)"

definition verifyAgainstHash :: "answer_env \<Rightarrow> string \<Rightarrow> string \<Rightarrow> answer_result" where
  "verifyAgainstHash env answer hashValue =
     (case parseHashFormat hashValue of
        (alg, slt, h) \<Rightarrow>
          if alg = ''plaintext''
          then (plainResult (answer = h))\<lparr>matchedHash := Some hashValue\<rparr>
          else
            (case (case createSecureHash env of
                     Some f \<Rightarrow> f answer slt
                   | None \<Rightarrow> Some (fallbackHash answer slt)) of
               None \<Rightarrow> (plainResult False)\<lparr>ar_error := Some HashFailure\<rparr>
             | Some computedHash \<Rightarrow>
                 (let isMatch = (computedHash = hashValue)
                  in \<lparr>correct = isMatch,
                      matchedHash = (if isMatch then Some hashValue else None),
                      ar_algorithm = Some alg, saltUsed = Some slt,
                      ar_error = None, verificationTime = None\<rparr>)))"

definition verifyAgainstPlaintext :: "answer_env \<Rightarrow> string \<Rightarrow> string \<Rightarrow> answer_result" where
  "verifyAgainstPlaintext env answer plaintext =
     (let normalizedPlaintext = AnswerUtil_normalizeAnswer (normalization env) plaintext;
          isMatch = (answer = normalizedPlaintext)
      in \<lparr>correct = isMatch,
          matchedHash = (if isMatch then Some plaintext else None),
          ar_algorithm = Some ''plaintext'', saltUsed = None,
          ar_error = None, verificationTime = None\<rparr>)"

definition verifyAgainstPattern :: "answer_env \<Rightarrow> string \<Rightarrow> string \<Rightarrow> answer_result" where
  "verifyAgainstPattern env answer pattern =
     (case regexTest env pattern answer of
        None \<Rightarrow> (plainResult False)\<lparr>ar_error := Some InvalidPattern\<rparr>
      | Some isMatch \<Rightarrow>
          \<lparr>correct = isMatch,
           matchedHash = (if isMatch then Some pattern else None),
           ar_algorithm = Some ''pattern'', saltUsed = None,
           ar_error = None, verificationTime = None\<rparr>)"

text \<open>The loop over \<open>answerHashes\<close>: the first correct result replaces the current one.\<close>

fun verifyAgainstHashes :: "answer_env \<Rightarrow> string \<Rightarrow> string list \<Rightarrow> answer_result \<Rightarrow> answer_result" where
  "verifyAgainstHashes env answer [] verificationResult = verificationResult"
| "verifyAgainstHashes env answer (h # hs) verificationResult =
     (let r = verifyAgainstHash env answer h
      in if correct r then r else verifyAgainstHashes env answer hs verificationResult)"

text \<open>A JavaScript string is truthy when it is not empty.\<close>

definition truthy :: "string option \<Rightarrow> string option" where
  "truthy s = (case s of None \<Rightarrow> None | Some x \<Rightarrow> if x = [] then None else Some x)"

text \<open>The four stages of \<open>verifyAnswer\<close> when the cache has no fresh entry.\<close>

definition verifyUncached :: "answer_env \<Rightarrow> string \<Rightarrow> puzzle_data \<Rightarrow> answer_result" where
  "verifyUncached env normalizedAnswer puzzleData =
     (let r0 = plainResult False;
          r1 = (case truthy (answerHash puzzleData) of
                  Some h \<Rightarrow> verifyAgainstHash env normalizedAnswer h
                | None \<Rightarrow> r0);
          r2 = (case answerHashes puzzleData of
                  Some hs \<Rightarrow> if \<not> correct r1 then verifyAgainstHashes env normalizedAnswer hs r1 else r1
                | None \<Rightarrow> r1);
          r3 = (case truthy (answerPlaintext puzzleData) of
                  Some p \<Rightarrow> if \<not> correct r2 then verifyAgainstPlaintext env normalizedAnswer p else r2
                | None \<Rightarrow> r2);
          r4 = (case truthy (answerPattern puzzleData) of
                  Some p \<Rightarrow> if \<not> correct r3 then verifyAgainstPattern env normalizedAnswer p else r3
                | None \<Rightarrow> r3)
      in r4)"

text \<open>
  \<open>getCacheKey\<close>: the rolling hash of answer, day and answer hash glued
  together, in base 36. A day that is absent or 0 contributes nothing.
\<close>

definition AnswerUtil_getCacheKey :: "string \<Rightarrow> puzzle_data \<Rightarrow> string" where
  "AnswerUtil_getCacheKey answer puzzleData =
     (let data = answer
            @ (case day puzzleData of
                 None \<Rightarrow> []
               | Some n \<Rightarrow> if n = 0 then [] else intToString 10 n)
            @ (case truthy (answerHash puzzleData) of None \<Rightarrow> [] | Some h \<Rightarrow> h)
      in intToString 36 (rollingHash data))"

text \<open>
  The cache is a JavaScript \<open>Map\<close>: keys in insertion order, each at most once.
\<close>

record cache_entry =
  entry_result :: answer_result
  entry_timestamp :: int

type_synonym answer_cache = "(string \<times> cache_entry) list"

definition mapSet :: "'k \<Rightarrow> 'v \<Rightarrow> ('k \<times> 'v) list \<Rightarrow> ('k \<times> 'v) list" where
  "mapSet k v m =
     (if k \<in> fst ` set m then map (\<lambda>(k', v'). if k' = k then (k', v) else (k', v')) m
      else m @ [(k, v)])"

definition mapDelete :: "'k \<Rightarrow> ('k \<times> 'v) list \<Rightarrow> ('k \<times> 'v) list" where
  "mapDelete k m = filter (\<lambda>(k', v'). k' \<noteq> k) m"

text \<open>
  \<open>cacheResult\<close>: at capacity, the oldest fifth of the entries (by time
  stamp, \<open>Math.floor(maxEntries * 0.2)\<close>) is deleted before the new entry is set.
\<close>

definition cacheResult :: "cache_config \<Rightarrow> answer_cache \<Rightarrow> string \<Rightarrow> answer_result \<Rightarrow> int \<Rightarrow> answer_cache" where
  "cacheResult cfg answerCache k r now =
     (let pruned =
            (if maxEntries cfg \<le> length answerCache
             then (let entries = sort_key (\<lambda>e. entry_timestamp (snd e)) answerCache;
                       toRemove = maxEntries cfg div 5
                   in foldl (\<lambda>m e. mapDelete (fst e) m) answerCache (take toRemove entries))
             else answerCache)
      in mapSet k \<lparr>entry_result = r, entry_timestamp = now\<rparr> pruned)"

text \<open>
  \<open>verifyAnswer\<close>: \<open>now\<close> is the clock at the cache check, \<open>finished\<close> the
  clock when the result is stored. The new cache is returned with the result.
\<close>

definition verifyAnswer ::
  "answer_env \<Rightarrow> answer_cache \<Rightarrow> int \<Rightarrow> int \<Rightarrow> string \<Rightarrow> puzzle_data
     \<Rightarrow> answer_result \<times> answer_cache" where
  "verifyAnswer env answerCache now finished normalizedAnswer puzzleData =
     (let cacheKey = AnswerUtil_getCacheKey normalizedAnswer puzzleData;
          cached = map_of answerCache cacheKey
      in case (case cached of
                 None \<Rightarrow> None
               | Some c \<Rightarrow> if now - entry_timestamp c < ttl (cache env) then Some c else None) of
           Some c \<Rightarrow> (entry_result c, answerCache)
         | None \<Rightarrow>
             (let verificationResult =
                    (verifyUncached env normalizedAnswer puzzleData)
                      \<lparr>verificationTime := Some (finished - now)\<rparr>
              in (verificationResult,
                  cacheResult (cache env) answerCache cacheKey verificationResult finished)))"

section \<open>The plasma filter puzzle\<close>

text \<open>
  The stage-2 answer rule of the plasma filter puzzle: two accepted answers,
  normalised by \<open>lowercase, trim, collapse-spaces\<close>.
\<close>

definition plasmafilterConfig :: stage2_config where
  "plasmafilterConfig =
     \<lparr>normalize = Some ''lowercase, trim, collapse-spaces'',
      accepted = Some [''plasmafilter'', ''plasma-filter''],
      answer_hashes = None, salt = None\<rparr>"

section \<open>Shapes of normalised text\<close>

text \<open>
  Four shapes a text can have: all in lower case; no white space at either
  end; every run of white space a single space; no white space at all.
\<close>

definition lowered :: "string \<Rightarrow> bool" where
  "lowered s = (\<forall>c \<in> set s. toLowerCaseChar c = c)"

definition trimmed :: "string \<Rightarrow> bool" where
  "trimmed s = (s = [] \<or> (\<not> isWhiteSpace (hd s) \<and> \<not> isWhiteSpace (last s)))"

fun collapsed :: "string \<Rightarrow> bool" where
  "collapsed [] = True"
| "collapsed [c] = (isWhiteSpace c \<longrightarrow> c = CHR '' '')"
| "collapsed (c # d # cs) =
     ((isWhiteSpace c \<longrightarrow> c = CHR '' '' \<and> \<not> isWhiteSpace d) \<and> collapsed (d # cs))"

definition spaceFree :: "string \<Rightarrow> bool" where
  "spaceFree s = (\<forall>c \<in> set s. \<not> isWhiteSpace c)"

definition punctuationFree :: "string \<Rightarrow> bool" where
  "punctuationFree s = (\<forall>c \<in> set s. c \<notin> set ''.,;:!?-'')"

text \<open>The names of the four replacement rules.\<close>

definition replaceRule :: "char \<Rightarrow> string \<Rightarrow> string" where
  "replaceRule c r = ''replace-'' @ [c] @ ''->'' @ r"

text \<open>The shape that a rule leaves behind; a text of that shape is not changed by it.\<close>

definition settled :: "string \<Rightarrow> string \<Rightarrow> bool" where
  "settled rule s =
     (if rule = ''lowercase'' then lowered s
      else if rule = ''trim'' then trimmed s
      else if rule = ''collapse-spaces'' then collapsed s
      else if rule = replaceRule (CHR 0xE4) ''ae'' then CHR 0xE4 \<notin> set s
      else if rule = replaceRule (CHR 0xF6) ''oe'' then CHR 0xF6 \<notin> set s
      else if rule = replaceRule (CHR 0xFC) ''ue'' then CHR 0xFC \<notin> set s
      else if rule = replaceRule (CHR 0xDF) ''ss'' then CHR 0xDF \<notin> set s
      else if rule = ''remove-spaces'' then spaceFree s
      else if rule = ''remove-punctuation'' then punctuationFree s
      else True)"

text \<open>
  Two rules of a list in a bad order: both occur, and no \<open>f\<close> stands at or
  after the first \<open>g\<close>. The shape that the last \<open>f\<close> left is then open to
  the first \<open>g\<close>, and no later \<open>f\<close> restores it.
\<close>

definition lastBeforeFirst :: "string \<Rightarrow> string \<Rightarrow> string list \<Rightarrow> bool" where
  "lastBeforeFirst f g rules =
     (f \<in> set rules \<and> g \<in> set rules \<and> f \<notin> set (dropWhile (\<lambda>r. r \<noteq> g) rules))"

text \<open>
  The orders in which a second pass changes some text: every replacement of
  one of the three umlauts before the first \<open>lowercase\<close> (which makes new
  small umlauts out of capital ones), or, in a list without \<open>remove-spaces\<close>,
  every \<open>trim\<close> or every \<open>collapse-spaces\<close> before the first
  \<open>remove-punctuation\<close> (which uncovers white space). Among the code units
  below 256 no capital letter becomes a sharp s, so that its replacement may
  stand anywhere.
\<close>

definition orderBroken :: "string list \<Rightarrow> bool" where
  "orderBroken rules =
     (lastBeforeFirst (replaceRule (CHR 0xE4) ''ae'') ''lowercase'' rules
      \<or> lastBeforeFirst (replaceRule (CHR 0xF6) ''oe'') ''lowercase'' rules
      \<or> lastBeforeFirst (replaceRule (CHR 0xFC) ''ue'') ''lowercase'' rules
      \<or> (''remove-spaces'' \<notin> set rules
          \<and> (lastBeforeFirst ''trim'' ''remove-punctuation'' rules
              \<or> lastBeforeFirst ''collapse-spaces'' ''remove-punctuation'' rules)))"

section \<open>Kinds of error, and example data\<close>

text \<open>The two messages of \<open>validateExpectedData\<close>.\<close>

fun contextMismatch :: "qr_error option \<Rightarrow> bool" where
  "contextMismatch (Some (RequiredFieldMissing k)) = True"
| "contextMismatch (Some (FieldMismatch k v a)) = True"
| "contextMismatch _ = False"

text \<open>The key table of \<open>QRVerify\<close> after \<open>loadPredefinedKeys\<close>.\<close>

definition predefinedKeys :: "string \<Rightarrow> key_data option" where
  "predefinedKeys k =
     (if k = ''winter2025''
      then Some \<lparr>kd_algorithm = ''HMAC'', key = ''winter2025_secret_key_demo_only'',
                 kd_keyId = ''winter2025'',
                 description = ''Demo-Schl'' @ [CHR 0xFC] @ ''ssel f'' @ [CHR 0xFC]
                                 @ ''r Winter Rallye 2025''\<rparr>
      else None)"

text \<open>
  A parsed token \<open>hmac.winter2025.<sig>.<payload>\<close> whose payload is
  \<open>{"day":2,"kind":"stage2"}\<close>.
\<close>

definition exampleToken :: "string option \<Rightarrow> parsed_qr" where
  "exampleToken sig =
     \<lparr>version = ''hmac'', algorithm = ''HMAC'', keyId = Some ''winter2025'',
      signature = sig,
      payload = [(''day'', JNum 2), (''kind'', JStr ''stage2'')],
      originalData = ''eyJkYXkiOjIsImtpbmQiOiJzdGFnZTIifQ==''\<rparr>"

text \<open>
  Two browsers with the predefined key loaded: one without the Web Crypto API,
  and one with it (its HMAC is never reached, so any function will do).
\<close>

definition fallbackEnv :: qr_env where
  "fallbackEnv = \<lparr>publicKeys = predefinedKeys, subtle = None\<rparr>"

definition webCryptoEnv :: qr_env where
  "webCryptoEnv =
     \<lparr>publicKeys = predefinedKeys,
      subtle = Some \<lparr>rejectsKey = (\<lambda>k. k = []), hmacSha256 = (\<lambda>k d. [])\<rparr>\<rparr>"

text \<open>
  The answer rule of the mock data for the same puzzle, with the replacement of
  a-umlaut at the end of its list, and a rule that trims before it removes the
  punctuation.
\<close>

definition kuechenklausConfig :: stage2_config where
  "kuechenklausConfig =
     \<lparr>normalize = Some (''lowercase, trim, collapse-spaces, replace-'' @ [CHR 0xE4] @ ''->ae''),
      accepted = Some [''plasmafilter'', ''plasma-filter''],
      answer_hashes = None, salt = None\<rparr>"

definition trimThenPunctuationConfig :: stage2_config where
  "trimThenPunctuationConfig =
     \<lparr>normalize = Some ''trim, remove-punctuation'', accepted = None,
      answer_hashes = None, salt = None\<rparr>"

text \<open>A stage-2 rule in production mode: answer hashes and a salt, no accepted list.\<close>

definition hashedConfig :: stage2_config where
  "hashedConfig =
     \<lparr>normalize = None, accepted = None,
      answer_hashes = Some [''5f2a''], salt = Some ''winter''\<rparr>"

text \<open>
  \<open>AnswerUtil\<close> with the configuration of its constructor, in a browser
  without \<open>SecurityStatic\<close>; no pattern is used in the examples.
\<close>

definition exampleAnswerEnv :: answer_env where
  "exampleAnswerEnv =
     \<lparr>createSecureHash = None, regexTest = (\<lambda>pattern answer. None),
      normalization = \<lparr>lowercase = True, removeSpaces = True,
                       removeSpecialChars = True, removeDiacritics = True\<rparr>,
      cache = \<lparr>maxEntries = 50, ttl = 300000\<rparr>\<rparr>"

text \<open>A puzzle of day 1 in development mode: the answer is stored as plain text.\<close>

definition examplePuzzle :: puzzle_data where
  "examplePuzzle =
     \<lparr>day = Some 1, answerHash = None, answerHashes = None,
      answerPlaintext = Some ''aln'', answerPattern = None\<rparr>"

section \<open>Calendar facts\<close>

lemma div_between: "q * k \<le> x \<Longrightarrow> x < q * k + k \<Longrightarrow> x div k = (q::int)"
proof -
  assume a: "q * k \<le> x" "x < q * k + k"
  have "x = k * q + (x - q * k)" by (simp add: algebra_simps)
  moreover have "0 \<le> x - q * k" using a by simp
  moreover have "x - q * k < k" using a by simp
  ultimately show ?thesis by (rule int_div_pos_eq)
qed

lemma civilFromDays_december_2025:
  assumes "1 \<le> d" "d \<le> 31"
  shows "civilFromDays (20422 + d) = (2025, 12, d)"
proof -
  define z where "z = 20422 + d + 719468"
  define doe where "doe = z - 5 * 146097"
  define yoe where "yoe = (doe - doe div 1460 + doe div 36524 - doe div 146096) div 365"
  define doy where "doy = doe - (365 * yoe + yoe div 4 - yoe div 100)"
  define mp where "mp = (5 * doy + 2) div 153"
  have era: "z div 146097 = 5"
    unfolding z_def using assms by (intro div_between) simp_all
  have doe: "doe = 9405 + d" by (simp add: doe_def z_def)
  have a: "doe div 1460 = 6" unfolding doe using assms by (intro div_between) simp_all
  have b: "doe div 36524 = 0" unfolding doe using assms by (intro div_between) simp_all
  have c: "doe div 146096 = 0" unfolding doe using assms by (intro div_between) simp_all
  have yoe: "yoe = 25"
    unfolding yoe_def a b c unfolding doe using assms by (intro div_between) simp_all
  have doy: "doy = 274 + d" unfolding doy_def yoe doe by simp
  have mp: "mp = 9" unfolding mp_def doy using assms by (intro div_between) simp_all
  have "civilFromDays (20422 + d) =
     (yoe + 5 * 400 + (if (if mp < 10 then mp + 3 else mp - 9) \<le> 2 then 1 else 0),
      (if mp < 10 then mp + 3 else mp - 9), doy - (153 * mp + 2) div 5 + 1)"
    unfolding civilFromDays_def Let_def
    unfolding z_def[symmetric] era
    unfolding doe_def[symmetric]
    unfolding yoe_def[symmetric]
    unfolding doy_def[symmetric]
    unfolding mp_def[symmetric]
    by (rule refl)
  also have "\<dots> = (2025, 12, d)" unfolding yoe mp doy by simp
  finally show ?thesis .
qed

lemma makeDay_december_2025: "makeDay 2025 11 d = 20422 + d"
  by (simp add: makeDay_def daysFromCivil_def)

lemma getDoorUnlockDate_value:
  "getDoorUnlockDate cfg tz d =
     (20422 + d) * msPerDay + dailyUnlockHour cfg * 3600000 + dailyUnlockMinute cfg * 60000
       - tz * 60000"
  by (simp add: getDoorUnlockDate_def newDate_def makeDay_december_2025)

lemma release_local_time:
  assumes "dailyUnlockHour cfg = 9" "dailyUnlockMinute cfg = 0"
  shows "localTime tz (getDoorUnlockDate cfg tz d) = (20422 + d) * 86400000 + 32400000"
  by (simp add: getDoorUnlockDate_value localTime_def msPerDay_def assms)

lemma release_day_number:
  assumes "dailyUnlockHour cfg = 9" "dailyUnlockMinute cfg = 0"
  shows "localTime tz (getDoorUnlockDate cfg tz d) div msPerDay = 20422 + d"
  unfolding release_local_time[OF assms] msPerDay_def
  by (intro div_between) simp_all

lemma release_fields:
  assumes "dailyUnlockHour cfg = 9" "dailyUnlockMinute cfg = 0" "1 \<le> d" "d \<le> 24"
  shows "getFullYear tz (getDoorUnlockDate cfg tz d) = 2025"
    and "getMonth tz (getDoorUnlockDate cfg tz d) = 11"
    and "getDate tz (getDoorUnlockDate cfg tz d) = d"
    and "getHours tz (getDoorUnlockDate cfg tz d) = 9"
    and "getMinutes tz (getDoorUnlockDate cfg tz d) = 0"
proof -
  have c: "civilFromDays (20422 + d) = (2025, 12, d)"
    using assms by (intro civilFromDays_december_2025) simp_all
  show "getFullYear tz (getDoorUnlockDate cfg tz d) = 2025"
    by (simp add: getFullYear_def release_day_number[OF assms(1,2)] c)
  show "getMonth tz (getDoorUnlockDate cfg tz d) = 11"
    by (simp add: getMonth_def release_day_number[OF assms(1,2)] c)
  show "getDate tz (getDoorUnlockDate cfg tz d) = d"
    by (simp add: getDate_def release_day_number[OF assms(1,2)] c)
  have m: "((20422 + d) * 86400000 + 32400000) mod 86400000 = 32400000"
    by (simp add: mod_mult_self3)
  show "getHours tz (getDoorUnlockDate cfg tz d) = 9"
    unfolding getHours_def release_local_time[OF assms(1,2)] msPerDay_def m by simp
  have "(20422 + d) * 86400000 + 32400000 = 3600000 * ((20422 + d) * 24 + 9)"
    by simp
  then have m2: "((20422 + d) * 86400000 + 32400000) mod 3600000 = 0"
    by (metis mod_mult_self1_is_0)
  show "getMinutes tz (getDoorUnlockDate cfg tz d) = 0"
    unfolding getMinutes_def release_local_time[OF assms(1,2)] m2 by simp
qed

lemma isDoorUnlocked_after_contest:
  assumes "dailyUnlockHour cfg = 9" and "dailyUnlockMinute cfg = 0"
    and "d \<le> 24" and "getDoorUnlockDate cfg tz 24 \<le> now"
  shows "isDoorUnlocked cfg tz d now"
  using assms by (simp add: isDoorUnlocked_def getDoorUnlockDate_value msPerDay_def)

section \<open>Release of the doors\<close>

text \<open>
  Claim C1. For a door without test release (any day other than the test day),
  \<open>isDoorUnlocked\<close> is false at every moment before the scheduled release of
  that day and true at the release and at every later moment. For the doors
  1 to 24 the release is 09:00 local time on that day of December 2025.
\<close>

theorem isDoorUnlocked_scheduled_boundary:
  assumes "d \<noteq> devTestDay cfg"
    and "dailyUnlockHour cfg = 9" and "dailyUnlockMinute cfg = 0"
    and "1 \<le> d" and "d \<le> 24"
  shows "(now < getDoorUnlockDate cfg tz d \<longrightarrow> \<not> isDoorUnlocked cfg tz d now)
       \<and> (getDoorUnlockDate cfg tz d \<le> now \<longrightarrow> isDoorUnlocked cfg tz d now)
       \<and> getFullYear tz (getDoorUnlockDate cfg tz d) = 2025
       \<and> getMonth tz (getDoorUnlockDate cfg tz d) = 11
       \<and> getDate tz (getDoorUnlockDate cfg tz d) = d
       \<and> getHours tz (getDoorUnlockDate cfg tz d) = 9
       \<and> getMinutes tz (getDoorUnlockDate cfg tz d) = 0"
  using assms(1) release_fields[OF assms(2-5), of tz]
  by (simp add: isDoorUnlocked_def)

theorem isDoorUnlocked_scheduled_boundary_witness:
  "(5::int) \<noteq> devTestDay (WR_TIME_CFG 0)
   \<and> dailyUnlockHour (WR_TIME_CFG 0) = 9 \<and> dailyUnlockMinute (WR_TIME_CFG 0) = 0
   \<and> newDate 60 2025 11 5 8 59 59 999 < getDoorUnlockDate (WR_TIME_CFG 0) 60 5
   \<and> \<not> isDoorUnlocked (WR_TIME_CFG 0) 60 5 (newDate 60 2025 11 5 8 59 59 999)
   \<and> getDoorUnlockDate (WR_TIME_CFG 0) 60 5 \<le> newDate 60 2025 11 5 9 0 0 0
   \<and> isDoorUnlocked (WR_TIME_CFG 0) 60 5 (newDate 60 2025 11 5 9 0 0 0)
   \<and> getDate 60 (getDoorUnlockDate (WR_TIME_CFG 0) 60 5) = 5"
proof -
  have h: "(5::int) \<noteq> devTestDay (WR_TIME_CFG 0)" "dailyUnlockHour (WR_TIME_CFG 0) = 9"
    "dailyUnlockMinute (WR_TIME_CFG 0) = 0" "(1::int) \<le> 5" "(5::int) \<le> 24"
    by (simp_all add: WR_TIME_CFG_def)
  have lt: "newDate 60 2025 11 5 8 59 59 999 < getDoorUnlockDate (WR_TIME_CFG 0) 60 5"
    by (simp add: getDoorUnlockDate_def newDate_def WR_TIME_CFG_def)
  have le: "getDoorUnlockDate (WR_TIME_CFG 0) 60 5 \<le> newDate 60 2025 11 5 9 0 0 0"
    by (simp add: getDoorUnlockDate_def newDate_def WR_TIME_CFG_def)
  show ?thesis
    using h(1,2,3) lt le
      isDoorUnlocked_scheduled_boundary[OF h, of "newDate 60 2025 11 5 8 59 59 999" 60]
      isDoorUnlocked_scheduled_boundary[OF h, of "newDate 60 2025 11 5 9 0 0 0" 60]
    by blast
qed

lemma override_instant: "isoInstant 2025 11 14 18 35 0 60 = 1763141700000"
  by (simp add: isoInstant_def daysFromCivil_def msPerDay_def)

text \<open>
  Claim C2. Door 2 of the backup configuration has the test release
  2025-11-14T18:35:00+01:00, which lies before its scheduled release of
  December 2, 09:00 (in any zone up to UTC+14). The test release is checked
  first: door 2 is unlocked exactly from the test release on, so it is unlocked
  at 18:36 and locked at 18:00 of November 14.
\<close>

theorem override_unlocks_door_2:
  assumes "tz \<le> 840"
  shows "(isDoorUnlocked WR_TIME_CFG_backup tz 2 now
            \<longleftrightarrow> isoInstant 2025 11 14 18 35 0 60 \<le> now)
       \<and> isoInstant 2025 11 14 18 35 0 60 < getDoorUnlockDate WR_TIME_CFG_backup tz 2
       \<and> getDoorUnlockDate WR_TIME_CFG_backup tz 2 = newDate tz 2025 11 2 9 0 0 0
       \<and> isDoorUnlocked WR_TIME_CFG_backup tz 2 (isoInstant 2025 11 14 18 36 0 60)
       \<and> \<not> isDoorUnlocked WR_TIME_CFG_backup tz 2 (isoInstant 2025 11 14 18 0 0 60)"
proof -
  have r: "getDoorUnlockDate WR_TIME_CFG_backup tz 2 = 1764666000000 - tz * 60000"
    by (simp add: getDoorUnlockDate_value WR_TIME_CFG_backup_def msPerDay_def)
  have lt: "isoInstant 2025 11 14 18 35 0 60 < getDoorUnlockDate WR_TIME_CFG_backup tz 2"
    unfolding r override_instant using assms by simp
  have cfg: "devTestDay WR_TIME_CFG_backup = 2"
    "devTestUnlockISO WR_TIME_CFG_backup = isoInstant 2025 11 14 18 35 0 60"
    by (simp_all add: WR_TIME_CFG_backup_def)
  have iff: "isDoorUnlocked WR_TIME_CFG_backup tz 2 t \<longleftrightarrow> isoInstant 2025 11 14 18 35 0 60 \<le> t"
    for t
    using lt by (auto simp: isDoorUnlocked_def cfg)
  have a: "isoInstant 2025 11 14 18 36 0 60 = 1763141760000"
    and b: "isoInstant 2025 11 14 18 0 0 60 = 1763139600000"
    by (simp_all add: isoInstant_def daysFromCivil_def msPerDay_def)
  have n: "getDoorUnlockDate WR_TIME_CFG_backup tz 2 = newDate tz 2025 11 2 9 0 0 0"
    by (simp add: getDoorUnlockDate_def WR_TIME_CFG_backup_def)
  show ?thesis
    unfolding iff using lt n by (simp add: a b override_instant)
qed

theorem override_unlocks_door_2_witness:
  "(60::int) \<le> 840
   \<and> isDoorUnlocked WR_TIME_CFG_backup 60 2 (isoInstant 2025 11 20 12 0 0 60)
   \<and> isoInstant 2025 11 20 12 0 0 60 < getDoorUnlockDate WR_TIME_CFG_backup 60 2"
proof -
  have h: "(60::int) \<le> 840" by simp
  have "isoInstant 2025 11 14 18 35 0 60 \<le> isoInstant 2025 11 20 12 0 0 60"
    by (simp add: isoInstant_def daysFromCivil_def msPerDay_def)
  moreover have "isoInstant 2025 11 20 12 0 0 60 < getDoorUnlockDate WR_TIME_CFG_backup 60 2"
    by (simp add: isoInstant_def daysFromCivil_def msPerDay_def getDoorUnlockDate_value
        WR_TIME_CFG_backup_def)
  ultimately show ?thesis
    using override_unlocks_door_2[OF h, of "isoInstant 2025 11 20 12 0 0 60"] by simp
qed

section \<open>After December\<close>

text \<open>
  The month of a date is at most 12, whatever the date: the branches for a
  month after December are never taken.
\<close>

lemma div_bounds:
  fixes x k :: int
  assumes "0 < k"
  shows "k * (x div k) \<le> x" and "x < k * (x div k) + k"
proof -
  have "x = k * (x div k) + x mod k" by simp
  moreover have "0 \<le> x mod k" "x mod k < k" using assms by simp_all
  ultimately show "k * (x div k) \<le> x" and "x < k * (x div k) + k" by linarith+
qed

lemma civilFromDays_month_le_12: "fst (snd (civilFromDays z0)) \<le> 12"
proof -
  define z where "z = z0 + 719468"
  define era where "era = z div 146097"
  define doe where "doe = z - era * 146097"
  define a where "a = doe div 1460"
  define b where "b = doe div 36524"
  define c where "c = doe div 146096"
  define yoe where "yoe = (doe - a + b - c) div 365"
  define doy where "doy = doe - (365 * yoe + yoe div 4 - yoe div 100)"
  define mp where "mp = (5 * doy + 2) div 153"
  have doe: "0 \<le> doe" "doe < 146097"
    using div_bounds[of 146097 z] by (simp_all add: doe_def era_def)
  have a: "1460 * a \<le> doe" "0 \<le> a"
    using div_bounds[of 1460 doe] doe by (simp_all add: a_def)
  have b: "36524 * b \<le> doe" "0 \<le> b"
    using div_bounds[of 36524 doe] doe by (simp_all add: b_def)
  have c: "146096 * c \<le> doe" "0 \<le> c"
    using div_bounds[of 146096 doe] doe by (simp_all add: c_def)
  have n: "0 \<le> doe - a + b - c" using a b c by linarith
  have yoe: "365 * yoe \<le> doe - a + b - c" "doe - a + b - c < 365 * yoe + 365" "0 \<le> yoe"
    using div_bounds[of 365 "doe - a + b - c"] n by (simp_all add: yoe_def)
  have q4: "0 \<le> yoe div 4" using yoe(3) by simp
  have q100: "100 * (yoe div 100) \<le> yoe"
    using div_bounds[of 100 yoe] by simp
  have doy: "doy \<le> 469"
    unfolding doy_def using doe a b c yoe q4 q100 by linarith
  have "153 * mp \<le> 5 * doy + 2"
    using div_bounds[of 153 "5 * doy + 2"] by (simp add: mp_def)
  then have mp: "mp \<le> 21" using doy by linarith
  have "fst (snd (civilFromDays z0)) = (if mp < 10 then mp + 3 else mp - 9)"
    unfolding civilFromDays_def Let_def
    unfolding z_def[symmetric] era_def[symmetric]
    unfolding doe_def[symmetric]
    unfolding a_def[symmetric] b_def[symmetric] c_def[symmetric]
    unfolding yoe_def[symmetric]
    unfolding doy_def[symmetric]
    unfolding mp_def[symmetric]
    by simp
  then show ?thesis using mp by simp
qed

lemma getMonth_le_11: "getMonth tz t \<le> 11"
  using civilFromDays_month_le_12[of "localTime tz t div msPerDay"]
  by (simp add: getMonth_def)

lemma getCurrentDecemberDay_never_after_december:
  "getCurrentDecemberDay tz now =
     (if getMonth tz now = 11 then Some (min (getDate tz now) 24) else None)"
  using getMonth_le_11[of tz now] by (simp add: getCurrentDecemberDay_def Let_def)

lemma TimeBerlin_getCurrentDecemberDay_never_after_december:
  "TimeBerlin_getCurrentDecemberDay tz now =
     (if getMonth tz now = 11 \<and> 1 \<le> getDate tz now \<and> getDate tz now \<le> 24
      then Some (getDate tz now) else None)"
  using getMonth_le_11[of tz now] by (simp add: TimeBerlin_getCurrentDecemberDay_def Let_def)

lemma isPuzzleAvailable_only_in_december:
  "isPuzzleAvailable tz d now \<longleftrightarrow> getMonth tz now = 11 \<and> d \<le> getDate tz now"
  using getMonth_le_11[of tz now] by (auto simp: isPuzzleAvailable_def Let_def)

text \<open>
  Claim C7, after the contest. At noon of January 15, 2026 (Berlin time) the
  application's \<open>isPuzzleAvailable\<close> reports no day at all as available, and
  both \<open>getCurrentDecemberDay\<close> functions return \<open>null\<close>, where the claim
  has every day from 1 to 24 available. \<open>isDoorUnlocked\<close>, which compares
  time values, has door 24 unlocked at the same moment.
\<close>

theorem january_reports_nothing_available:
  "\<not> isPuzzleAvailable 60 d (newDate 60 2026 0 15 12 0 0 0)
   \<and> getCurrentDecemberDay 60 (newDate 60 2026 0 15 12 0 0 0) = None
   \<and> TimeBerlin_getCurrentDecemberDay 60 (newDate 60 2026 0 15 12 0 0 0) = None
   \<and> isDoorUnlocked WR_TIME_CFG_backup 60 24 (newDate 60 2026 0 15 12 0 0 0)"
proof -
  have m: "getMonth 60 (newDate 60 2026 0 15 12 0 0 0) = 0"
    by code_simp
  have u: "isDoorUnlocked WR_TIME_CFG_backup 60 24 (newDate 60 2026 0 15 12 0 0 0)"
    by code_simp
  show ?thesis
    using u
    by (simp add: isPuzzleAvailable_def getCurrentDecemberDay_def
        TimeBerlin_getCurrentDecemberDay_def m)
qed

section \<open>Validating a normalised answer\<close>

lemma normalizeRules_plasmafilterConfig:
  "normalizeRules plasmafilterConfig = [''lowercase'', ''trim'', ''collapse-spaces'']"
  by code_simp

lemma normalize_examples:
  "normalizeAnswer ''Plasmafilter'' plasmafilterConfig = ''plasmafilter''"
  "normalizeAnswer '' PLASMA-FILTER '' plasmafilterConfig = ''plasma-filter''"
  "normalizeAnswer ''plasma filter'' plasmafilterConfig = ''plasma filter''"
  by code_simp+

text \<open>
  Claim C3. With an accepted-answer list configured, \<open>validateAnswer\<close> returns
  true exactly when the normalised answer is an element of the list. For the
  plasma filter rule, \<open>"Plasmafilter"\<close> and \<open>" PLASMA-FILTER "\<close> are accepted
  after normalisation, and \<open>"plasma filter"\<close> keeps its inner space and is
  rejected.
\<close>

theorem accepted_set_decides:
  "(accepted config = Some acc \<longrightarrow>
      (validateAnswer securityStatic normalizedAnswer config \<longleftrightarrow> normalizedAnswer \<in> set acc))
   \<and> validateAnswer securityStatic (normalizeAnswer ''Plasmafilter'' plasmafilterConfig) plasmafilterConfig
   \<and> validateAnswer securityStatic (normalizeAnswer '' PLASMA-FILTER '' plasmafilterConfig) plasmafilterConfig
   \<and> normalizeAnswer ''plasma filter'' plasmafilterConfig = ''plasma filter''
   \<and> \<not> validateAnswer securityStatic (normalizeAnswer ''plasma filter'' plasmafilterConfig) plasmafilterConfig"
proof -
  have gen: "validateAnswer s a c \<longleftrightarrow> a \<in> set xs" if "accepted c = Some xs" for s a c xs
    using that by (simp add: validateAnswer_def validateAnswerLogged_def Let_def)
  have acc: "accepted plasmafilterConfig = Some [''plasmafilter'', ''plasma-filter'']"
    by (simp add: plasmafilterConfig_def)
  show ?thesis
    unfolding normalize_examples gen[OF acc]
    using gen by simp
qed

theorem accepted_set_decides_witness:
  "accepted plasmafilterConfig = Some [''plasmafilter'', ''plasma-filter'']
   \<and> validateAnswer None ''plasma-filter'' plasmafilterConfig
   \<and> \<not> validateAnswer None ''plasmafilte'' plasmafilterConfig"
proof -
  have acc: "accepted plasmafilterConfig = Some [''plasmafilter'', ''plasma-filter'']"
    by (simp add: plasmafilterConfig_def)
  show ?thesis
    using acc
      accepted_set_decides[of plasmafilterConfig "[''plasmafilter'', ''plasma-filter'']" None "''plasma-filter''"]
      accepted_set_decides[of plasmafilterConfig "[''plasmafilter'', ''plasma-filter'']" None "''plasmafilte''"]
    by simp
qed

text \<open>
  Claim C5. With neither an accepted-answer list nor answer hashes configured,
  every answer is accepted.
\<close>

theorem nothing_configured_accepts:
  assumes "accepted config = None" and "answer_hashes config = None"
  shows "validateAnswer securityStatic normalizedAnswer config
       \<and> validateAnswerLogged securityStatic normalizedAnswer config = (True, LogNothingConfigured)"
  using assms by (simp add: validateAnswer_def validateAnswerLogged_def)

theorem nothing_configured_accepts_witness:
  "accepted \<lparr>normalize = None, accepted = None, answer_hashes = None, salt = None\<rparr> = None
   \<and> answer_hashes \<lparr>normalize = None, accepted = None, answer_hashes = None, salt = None\<rparr> = None
   \<and> validateAnswer None ''anything at all''
         \<lparr>normalize = None, accepted = None, answer_hashes = None, salt = None\<rparr>"
  using nothing_configured_accepts
    [of "\<lparr>normalize = None, accepted = None, answer_hashes = None, salt = None\<rparr>"
        None "''anything at all''"]
  by simp

text \<open>
  Claim C10. With both an accepted-answer list and answer hashes configured,
  the list alone decides: the result does not depend on the hashes, the salt
  or the hash checker, and an answer outside the list is rejected on the
  accepted-list path.
\<close>

theorem accepted_set_shadows_hashes:
  assumes "accepted config = Some acc" and "answer_hashes config = Some hashes"
  shows "(validateAnswer securityStatic normalizedAnswer config \<longleftrightarrow> normalizedAnswer \<in> set acc)
       \<and> validateAnswer securityStatic normalizedAnswer config
           = validateAnswer otherStatic normalizedAnswer (config\<lparr>answer_hashes := otherHashes, salt := otherSalt\<rparr>)
       \<and> (normalizedAnswer \<notin> set acc \<longrightarrow>
            validateAnswerLogged securityStatic normalizedAnswer config = (False, LogViaAccepted False))"
  using assms by (simp add: validateAnswer_def validateAnswerLogged_def Let_def)

theorem accepted_set_shadows_hashes_witness:
  "accepted (plasmafilterConfig\<lparr>answer_hashes := Some [''h1'']\<rparr>) = Some [''plasmafilter'', ''plasma-filter'']
   \<and> answer_hashes (plasmafilterConfig\<lparr>answer_hashes := Some [''h1'']\<rparr>) = Some [''h1'']
   \<and> ''secret'' \<notin> set [''plasmafilter'', ''plasma-filter'']
   \<and> \<not> validateAnswer (Some (\<lambda>a h s. Some True)) ''secret''
         (plasmafilterConfig\<lparr>answer_hashes := Some [''h1'']\<rparr>)"
proof -
  have a: "accepted (plasmafilterConfig\<lparr>answer_hashes := Some [''h1'']\<rparr>) = Some [''plasmafilter'', ''plasma-filter'']"
    and b: "answer_hashes (plasmafilterConfig\<lparr>answer_hashes := Some [''h1'']\<rparr>) = Some [''h1'']"
    by (simp_all add: plasmafilterConfig_def)
  have c: "''secret'' \<notin> set [''plasmafilter'', ''plasma-filter'']" by simp
  show ?thesis
    using a b c
      accepted_set_shadows_hashes[OF a b, of "Some (\<lambda>a h s. Some True)" "''secret''"]
    by simp
qed

section \<open>The steps of the normaliser\<close>

lemma isWhiteSpace_toLowerCaseChar [simp]:
  "isWhiteSpace (toLowerCaseChar c) = isWhiteSpace c"
  by (auto simp: isWhiteSpace_def toLowerCaseChar_def charCode_def Let_def)

lemma toLowerCaseChar_idem [simp]:
  "toLowerCaseChar (toLowerCaseChar c) = toLowerCaseChar c"
  by (auto simp: toLowerCaseChar_def charCode_def Let_def)

lemma isWhiteSpace_space [simp]: "isWhiteSpace (CHR '' '')"
  by (simp add: isWhiteSpace_def charCode_def)

lemma toLowerCaseChar_space [simp]: "toLowerCaseChar (CHR '' '') = CHR '' ''"
  by (simp add: toLowerCaseChar_def charCode_def)

lemma toLowerCaseChar_white: "isWhiteSpace c \<Longrightarrow> toLowerCaseChar c = c"
  by (auto simp: isWhiteSpace_def toLowerCaseChar_def charCode_def Let_def)

lemma charCode_toLowerCaseChar:
  "charCode (toLowerCaseChar c) =
     (if (65 \<le> charCode c \<and> charCode c \<le> 90)
         \<or> (192 \<le> charCode c \<and> charCode c \<le> 222 \<and> charCode c \<noteq> 215)
      then charCode c + 32 else charCode c)"
  by (simp add: toLowerCaseChar_def charCode_def Let_def)

lemma toLowerCaseChar_range:
  assumes "toLowerCaseChar c \<noteq> c"
  shows "charCode (toLowerCaseChar c) \<in> {97..122} \<union> {224..254}"
proof -
  have "(65 \<le> charCode c \<and> charCode c \<le> 90)
         \<or> (192 \<le> charCode c \<and> charCode c \<le> 222 \<and> charCode c \<noteq> 215)"
    using assms by (auto simp: toLowerCaseChar_def Let_def split: if_splits)
  then show ?thesis by (auto simp: charCode_toLowerCaseChar)
qed


subsection \<open>Lower case\<close>

lemma lowered_toLowerCase: "lowered (toLowerCase s)"
  by (simp add: lowered_def toLowerCase_def)

lemma toLowerCase_fixed: "lowered s \<Longrightarrow> toLowerCase s = s"
  by (simp add: lowered_def toLowerCase_def map_idI)

lemma trimmed_toLowerCase: "trimmed s \<Longrightarrow> trimmed (toLowerCase s)"
  by (auto simp: trimmed_def toLowerCase_def hd_map last_map)

lemma collapsed_Cons:
  "collapsed (c # s) \<longleftrightarrow>
     (isWhiteSpace c \<longrightarrow> c = CHR '' '' \<and> (s = [] \<or> \<not> isWhiteSpace (hd s))) \<and> collapsed s"
  by (cases s) auto

lemma collapsed_toLowerCase: "collapsed s \<Longrightarrow> collapsed (toLowerCase s)"
proof (induction s)
  case Nil
  then show ?case by (simp add: toLowerCase_def)
next
  case (Cons c s)
  then show ?case
    by (cases s) (auto simp: toLowerCase_def collapsed_Cons toLowerCaseChar_white)
qed

lemma spaceFree_toLowerCase: "spaceFree s \<Longrightarrow> spaceFree (toLowerCase s)"
  by (simp add: spaceFree_def toLowerCase_def)

subsection \<open>Removing white space\<close>

lemma spaceFree_stripWhiteSpace: "spaceFree (stripWhiteSpace s)"
  by (simp add: spaceFree_def stripWhiteSpace_def)

lemma stripWhiteSpace_fixed: "spaceFree s \<Longrightarrow> stripWhiteSpace s = s"
  by (simp add: spaceFree_def stripWhiteSpace_def)

lemma lowered_stripWhiteSpace: "lowered s \<Longrightarrow> lowered (stripWhiteSpace s)"
  by (simp add: lowered_def stripWhiteSpace_def)

lemma spaceFree_trimmed: "spaceFree s \<Longrightarrow> trimmed s"
  by (cases s) (auto simp: spaceFree_def trimmed_def)

lemma spaceFree_collapsed: "spaceFree s \<Longrightarrow> collapsed s"
  by (induction s) (auto simp: spaceFree_def collapsed_Cons)

subsection \<open>Collapsing runs of white space\<close>

lemma collapseRuns_shape:
  "collapsed (collapseRuns b s)
   \<and> (b \<longrightarrow> collapseRuns b s = [] \<or> \<not> isWhiteSpace (hd (collapseRuns b s)))"
  by (induction s arbitrary: b) (auto simp: collapsed_Cons)

lemma collapsed_collapseSpaces: "collapsed (collapseSpaces s)"
  by (simp add: collapseSpaces_def collapseRuns_shape)

lemma collapseRuns_fixed:
  "collapsed s \<Longrightarrow> (b \<longrightarrow> s = [] \<or> \<not> isWhiteSpace (hd s)) \<Longrightarrow> collapseRuns b s = s"
  by (induction s arbitrary: b) (auto simp: collapsed_Cons)

lemma collapseSpaces_fixed: "collapsed s \<Longrightarrow> collapseSpaces s = s"
  by (simp add: collapseSpaces_def collapseRuns_fixed)

lemma set_collapseRuns: "set (collapseRuns b s) \<subseteq> insert (CHR '' '') (set s)"
  by (induction s arbitrary: b) auto

lemma lowered_collapseSpaces: "lowered s \<Longrightarrow> lowered (collapseSpaces s)"
  using set_collapseRuns[of False s] by (auto simp: lowered_def collapseSpaces_def)

lemma last_collapseRuns:
  "s \<noteq> [] \<Longrightarrow> \<not> isWhiteSpace (last s)
     \<Longrightarrow> collapseRuns b s \<noteq> [] \<and> last (collapseRuns b s) = last s"
proof (induction s arbitrary: b)
  case Nil
  then show ?case by simp
next
  case (Cons c s)
  show ?case
  proof (cases "s = []")
    case True
    with Cons.prems show ?thesis by simp
  next
    case False
    then have "\<not> isWhiteSpace (last s)" using Cons.prems by simp
    then have IH: "collapseRuns b' s \<noteq> [] \<and> last (collapseRuns b' s) = last s" for b'
      using Cons.IH False by blast
    have "last (c # s) = last s" using False by simp
    then show ?thesis using IH by simp
  qed
qed

lemma trimmed_collapseSpaces: "trimmed s \<Longrightarrow> trimmed (collapseSpaces s)"
proof (cases s)
  case Nil
  then show ?thesis by (simp add: collapseSpaces_def trimmed_def)
next
  case (Cons c t)
  assume "trimmed s"
  then have c: "\<not> isWhiteSpace c" and l: "\<not> isWhiteSpace (last s)"
    using Cons by (simp_all add: trimmed_def)
  have "collapseRuns False s \<noteq> [] \<and> last (collapseRuns False s) = last s"
    using last_collapseRuns[of s False] l Cons by simp
  moreover have "hd (collapseRuns False s) = c" using Cons c by simp
  ultimately show ?thesis using c l by (simp add: trimmed_def collapseSpaces_def)
qed

lemma spaceFree_collapseSpaces: "spaceFree s \<Longrightarrow> spaceFree (collapseSpaces s)"
  by (simp add: collapseSpaces_fixed spaceFree_collapsed)

subsection \<open>Trimming\<close>

lemma trim_prefix:
  "trim s @ rev (takeWhile isWhiteSpace (rev (dropWhile isWhiteSpace s))) = dropWhile isWhiteSpace s"
proof -
  define xs where "xs = rev (dropWhile isWhiteSpace s)"
  have "rev (takeWhile isWhiteSpace xs @ dropWhile isWhiteSpace xs) = rev xs"
    by (simp only: takeWhile_dropWhile_id)
  then have "rev (dropWhile isWhiteSpace xs) @ rev (takeWhile isWhiteSpace xs) = rev xs"
    by (simp only: rev_append)
  then show ?thesis by (simp add: trim_def xs_def)
qed

lemma trimmed_trim: "trimmed (trim s)"
proof (cases "trim s = []")
  case True
  then show ?thesis by (simp add: trimmed_def)
next
  case False
  define a where "a = dropWhile isWhiteSpace s"
  have b: "dropWhile isWhiteSpace (rev a) \<noteq> []"
    using False by (simp add: trim_def a_def)
  have "last (trim s) = hd (dropWhile isWhiteSpace (rev a))"
    using b by (simp add: trim_def a_def last_rev)
  then have l: "\<not> isWhiteSpace (last (trim s))"
    using hd_dropWhile[OF b] by simp
  have "a \<noteq> []" using b by auto
  then have "\<not> isWhiteSpace (hd a)"
    unfolding a_def by (rule hd_dropWhile)
  moreover have "hd (trim s) = hd a"
    using trim_prefix[of s] False unfolding a_def by (metis hd_append2)
  ultimately show ?thesis using l False by (simp add: trimmed_def)
qed

lemma trim_fixed: "trimmed s \<Longrightarrow> trim s = s"
proof (cases "s = []")
  case True
  then show ?thesis by (simp add: trim_def)
next
  case False
  assume "trimmed s"
  then have h: "\<not> isWhiteSpace (hd s)" and l: "\<not> isWhiteSpace (last s)"
    using False by (simp_all add: trimmed_def)
  have 1: "dropWhile isWhiteSpace s = s"
    using h by (simp add: dropWhile_eq_self_iff)
  have "hd (rev s) = last s" using False by (simp add: hd_rev)
  then have 2: "dropWhile isWhiteSpace (rev s) = rev s"
    using l by (simp add: dropWhile_eq_self_iff)
  show ?thesis by (simp add: trim_def 1 2)
qed

lemma set_trim: "set (trim s) \<subseteq> set s"
proof
  fix c assume "c \<in> set (trim s)"
  then have "c \<in> set (dropWhile isWhiteSpace (rev (dropWhile isWhiteSpace s)))"
    by (simp add: trim_def)
  then have "c \<in> set (rev (dropWhile isWhiteSpace s))" by (rule set_dropWhileD)
  then have "c \<in> set (dropWhile isWhiteSpace s)" by simp
  then show "c \<in> set s" by (rule set_dropWhileD)
qed

lemma lowered_trim: "lowered s \<Longrightarrow> lowered (trim s)"
  using set_trim[of s] by (auto simp: lowered_def)

lemma spaceFree_trim: "spaceFree s \<Longrightarrow> spaceFree (trim s)"
  using set_trim[of s] by (auto simp: spaceFree_def)

lemma collapsed_dropWhile: "collapsed s \<Longrightarrow> collapsed (dropWhile P s)"
  by (induction s) (auto simp: collapsed_Cons)

lemma collapsed_prefix: "collapsed (xs @ ys) \<Longrightarrow> collapsed xs"
proof (induction xs)
  case Nil
  then show ?case by simp
next
  case (Cons c xs)
  then show ?case by (cases xs) (auto simp: collapsed_Cons)
qed

lemma collapsed_trim: "collapsed s \<Longrightarrow> collapsed (trim s)"
proof -
  assume "collapsed s"
  then have "collapsed (dropWhile isWhiteSpace s)" by (rule collapsed_dropWhile)
  then have "collapsed (trim s @ rev (takeWhile isWhiteSpace (rev (dropWhile isWhiteSpace s))))"
    by (simp only: trim_prefix)
  then show ?thesis by (rule collapsed_prefix)
qed


subsection \<open>Replacing a character\<close>

lemma replaceChar_Nil [simp]: "replaceChar c r [] = []"
  by (simp add: replaceChar_def)

lemma replaceChar_Cons [simp]:
  "replaceChar c r (x # s) = (if x = c then r else [x]) @ replaceChar c r s"
  by (simp add: replaceChar_def)

lemma replaceChar_append [simp]:
  "replaceChar c r (s @ t) = replaceChar c r s @ replaceChar c r t"
  by (simp add: replaceChar_def)

lemma set_replaceChar: "set (replaceChar c r s) \<subseteq> (set s - {c}) \<union> set r"
  by (induction s) auto

lemma replaceChar_fixed: "c \<notin> set s \<Longrightarrow> replaceChar c r s = s"
  by (induction s) auto

lemma replaceChar_removes: "c \<notin> set r \<Longrightarrow> c \<notin> set (replaceChar c r s)"
  using set_replaceChar[of c r s] by auto

lemma replaceChar_keeps_out:
  "x \<notin> set s \<Longrightarrow> x \<notin> set r \<Longrightarrow> x \<notin> set (replaceChar c r s)"
  using set_replaceChar[of c r s] by auto

lemma lowered_replaceChar: "lowered s \<Longrightarrow> lowered r \<Longrightarrow> lowered (replaceChar c r s)"
  using set_replaceChar[of c r s] by (auto simp: lowered_def)

lemma spaceFree_replaceChar:
  "spaceFree s \<Longrightarrow> spaceFree r \<Longrightarrow> spaceFree (replaceChar c r s)"
  using set_replaceChar[of c r s] by (auto simp: spaceFree_def)

lemma punctuationFree_replaceChar:
  "punctuationFree s \<Longrightarrow> punctuationFree r \<Longrightarrow> punctuationFree (replaceChar c r s)"
  using set_replaceChar[of c r s] unfolding punctuationFree_def by blast

lemma replaceChar_empty:
  "r \<noteq> [] \<Longrightarrow> replaceChar c r s = [] \<longleftrightarrow> s = []"
  by (cases s) auto

lemma hd_replaceChar:
  assumes "r \<noteq> []" "spaceFree r" "s \<noteq> []" "\<not> isWhiteSpace c"
  shows "isWhiteSpace (hd (replaceChar c r s)) = isWhiteSpace (hd s)"
proof -
  obtain x t where s: "s = x # t" using assms(3) by (cases s) auto
  have "\<not> isWhiteSpace (hd r)" using assms(1,2) by (cases r) (auto simp: spaceFree_def)
  then show ?thesis using assms(1,4) by (auto simp: s)
qed

lemma last_replaceChar:
  assumes "r \<noteq> []" "spaceFree r" "s \<noteq> []" "\<not> isWhiteSpace c"
  shows "isWhiteSpace (last (replaceChar c r s)) = isWhiteSpace (last s)"
proof -
  obtain t x where s: "s = t @ [x]" using assms(3) by (cases s rule: rev_cases) auto
  have "\<not> isWhiteSpace (last r)" using assms(1,2) by (auto simp: spaceFree_def)
  then show ?thesis using assms(1,4) by (auto simp: s)
qed

lemma trimmed_replaceChar:
  "r \<noteq> [] \<Longrightarrow> spaceFree r \<Longrightarrow> \<not> isWhiteSpace c \<Longrightarrow> trimmed s
     \<Longrightarrow> trimmed (replaceChar c r s)"
  by (auto simp: trimmed_def replaceChar_empty hd_replaceChar last_replaceChar)

lemma collapsed_spaceFree_append:
  "spaceFree r \<Longrightarrow> collapsed t \<Longrightarrow> collapsed (r @ t)"
  by (induction r) (auto simp: spaceFree_def collapsed_Cons)

lemma collapsed_replaceChar:
  assumes "r \<noteq> []" "spaceFree r" "\<not> isWhiteSpace c"
  shows "collapsed s \<Longrightarrow> collapsed (replaceChar c r s)"
proof (induction s)
  case Nil
  then show ?case by simp
next
  case (Cons x s)
  have t: "collapsed (replaceChar c r s)" using Cons by (simp add: collapsed_Cons)
  show ?case
  proof (cases "x = c")
    case True
    then show ?thesis using t assms by (simp add: collapsed_spaceFree_append)
  next
    case False
    then show ?thesis
      using Cons.prems t assms
      by (auto simp: collapsed_Cons replaceChar_empty hd_replaceChar)
  qed
qed

subsection \<open>Removing punctuation\<close>

lemma punctuationFree_removePunctuation: "punctuationFree (removePunctuation s)"
  by (simp add: punctuationFree_def removePunctuation_def)

lemma removePunctuation_fixed: "punctuationFree s \<Longrightarrow> removePunctuation s = s"
  unfolding punctuationFree_def removePunctuation_def by (rule filter_True) blast

lemma set_removePunctuation: "set (removePunctuation s) \<subseteq> set s"
  by (simp add: removePunctuation_def)

lemma lowered_removePunctuation: "lowered s \<Longrightarrow> lowered (removePunctuation s)"
  using set_removePunctuation[of s] by (auto simp: lowered_def)

lemma spaceFree_removePunctuation: "spaceFree s \<Longrightarrow> spaceFree (removePunctuation s)"
  using set_removePunctuation[of s] by (auto simp: spaceFree_def)

lemma toLowerCaseChar_punctuation:
  assumes "toLowerCaseChar c \<in> set ''.,;:!?-''"
  shows "c \<in> set ''.,;:!?-''"
proof (cases "toLowerCaseChar c = c")
  case True
  then show ?thesis using assms by simp
next
  case False
  have "charCode (toLowerCaseChar c) \<in> {46, 44, 59, 58, 33, 63, 45}"
    using assms by (auto simp: charCode_def)
  then show ?thesis using toLowerCaseChar_range[OF False] by auto
qed

lemma punctuationFree_toLowerCase: "punctuationFree s \<Longrightarrow> punctuationFree (toLowerCase s)"
  unfolding punctuationFree_def toLowerCase_def using toLowerCaseChar_punctuation by auto

lemma punctuationFree_subset: "set t \<subseteq> set s \<Longrightarrow> punctuationFree s \<Longrightarrow> punctuationFree t"
  unfolding punctuationFree_def by blast

lemma punctuationFree_trim: "punctuationFree s \<Longrightarrow> punctuationFree (trim s)"
  using set_trim punctuationFree_subset by blast

lemma punctuationFree_stripWhiteSpace:
  "punctuationFree s \<Longrightarrow> punctuationFree (stripWhiteSpace s)"
  by (rule punctuationFree_subset[of _ s]) (simp_all add: stripWhiteSpace_def)

lemma punctuationFree_collapseSpaces:
  "punctuationFree s \<Longrightarrow> punctuationFree (collapseSpaces s)"
  using set_collapseRuns[of False s] unfolding punctuationFree_def collapseSpaces_def by auto

subsection \<open>Single rules\<close>

lemma applyRule_cases:
  "applyRule s rule =
     (if rule = ''lowercase'' then toLowerCase s
      else if rule = ''trim'' then trim s
      else if rule = ''collapse-spaces'' then collapseSpaces s
      else if rule = replaceRule (CHR 0xE4) ''ae'' then replaceChar (CHR 0xE4) ''ae'' s
      else if rule = replaceRule (CHR 0xF6) ''oe'' then replaceChar (CHR 0xF6) ''oe'' s
      else if rule = replaceRule (CHR 0xFC) ''ue'' then replaceChar (CHR 0xFC) ''ue'' s
      else if rule = replaceRule (CHR 0xDF) ''ss'' then replaceChar (CHR 0xDF) ''ss'' s
      else if rule = ''remove-spaces'' then stripWhiteSpace s
      else if rule = ''remove-punctuation'' then removePunctuation s
      else s)"
  by (simp add: applyRule_def replaceRule_def)

lemma replacement_shapes:
  "lowered ''ae''" "lowered ''oe''" "lowered ''ue''" "lowered ''ss''"
  "spaceFree ''ae''" "spaceFree ''oe''" "spaceFree ''ue''" "spaceFree ''ss''"
  "punctuationFree ''ae''" "punctuationFree ''oe''" "punctuationFree ''ue''"
  "punctuationFree ''ss''"
  "\<not> isWhiteSpace (CHR 0xE4)" "\<not> isWhiteSpace (CHR 0xF6)" "\<not> isWhiteSpace (CHR 0xFC)"
  "\<not> isWhiteSpace (CHR 0xDF)"
  by (simp_all add: lowered_def spaceFree_def punctuationFree_def toLowerCaseChar_def
      isWhiteSpace_def charCode_def)

lemma settled_applyRule: "settled rule (applyRule s rule)"
  by (simp add: applyRule_cases settled_def lowered_toLowerCase trimmed_trim
      collapsed_collapseSpaces spaceFree_stripWhiteSpace punctuationFree_removePunctuation
      replaceChar_removes)

lemma settled_fixed: "settled rule s \<Longrightarrow> applyRule s rule = s"
  by (simp add: applyRule_cases settled_def toLowerCase_fixed trim_fixed collapseSpaces_fixed
      stripWhiteSpace_fixed removePunctuation_fixed replaceChar_fixed split: if_splits)

lemma lowered_applyRule: "lowered s \<Longrightarrow> lowered (applyRule s h)"
  by (simp add: applyRule_cases lowered_toLowerCase lowered_trim lowered_collapseSpaces
      lowered_stripWhiteSpace lowered_removePunctuation lowered_replaceChar replacement_shapes)

lemma spaceFree_applyRule: "spaceFree s \<Longrightarrow> spaceFree (applyRule s h)"
  by (simp add: applyRule_cases spaceFree_toLowerCase spaceFree_trim spaceFree_collapseSpaces
      spaceFree_stripWhiteSpace spaceFree_removePunctuation spaceFree_replaceChar
      replacement_shapes)

lemma punctuationFree_applyRule: "punctuationFree s \<Longrightarrow> punctuationFree (applyRule s h)"
  by (simp add: applyRule_cases punctuationFree_toLowerCase punctuationFree_trim
      punctuationFree_collapseSpaces punctuationFree_stripWhiteSpace
      punctuationFree_removePunctuation punctuationFree_replaceChar replacement_shapes)

lemma trimmed_applyRule:
  "h \<noteq> ''remove-punctuation'' \<Longrightarrow> trimmed s \<Longrightarrow> trimmed (applyRule s h)"
  by (simp add: applyRule_cases trimmed_toLowerCase trimmed_trim trimmed_collapseSpaces
      spaceFree_trimmed spaceFree_stripWhiteSpace trimmed_replaceChar replacement_shapes)

lemma collapsed_applyRule:
  "h \<noteq> ''remove-punctuation'' \<Longrightarrow> collapsed s \<Longrightarrow> collapsed (applyRule s h)"
  by (simp add: applyRule_cases collapsed_toLowerCase collapsed_trim collapsed_collapseSpaces
      spaceFree_collapsed spaceFree_stripWhiteSpace collapsed_replaceChar replacement_shapes)

lemma absent_after_rule:
  assumes "x \<notin> set s" and "x \<noteq> CHR '' ''" and "x \<notin> set ''aeouss''"
    and "h = ''lowercase'' \<Longrightarrow> \<forall>c. toLowerCaseChar c = x \<longrightarrow> c = x"
  shows "x \<notin> set (applyRule s h)"
proof -
  have t: "x \<notin> set (trim s)" using assms(1) set_trim by blast
  have c: "x \<notin> set (collapseSpaces s)"
    using assms(1,2) set_collapseRuns[of False s] by (auto simp: collapseSpaces_def)
  have r: "\<And>c r. set r \<subseteq> set ''aeouss'' \<Longrightarrow> x \<notin> set (replaceChar c r s)"
    using assms(1,3) by (intro replaceChar_keeps_out) auto
  have l: "h = ''lowercase'' \<Longrightarrow> x \<notin> set (toLowerCase s)"
    using assms(1,4) by (auto simp: toLowerCase_def)
  show ?thesis
    using assms(1) t c l r[of "''ae''"] r[of "''oe''"] r[of "''ue''"] r[of "''ss''"]
    by (simp add: applyRule_cases stripWhiteSpace_def removePunctuation_def)
qed

lemma umlaut_absent_after_rule:
  "x \<in> {CHR 0xE4, CHR 0xF6, CHR 0xFC} \<Longrightarrow> h \<noteq> ''lowercase'' \<Longrightarrow> x \<notin> set s
     \<Longrightarrow> x \<notin> set (applyRule s h)"
  by (rule absent_after_rule) auto

lemma toLowerCaseChar_sharp_s:
  assumes "toLowerCaseChar c = CHR 0xDF"
  shows "c = CHR 0xDF"
proof (cases "toLowerCaseChar c = c")
  case True
  then show ?thesis using assms by simp
next
  case False
  have "charCode (toLowerCaseChar c) = 223" using assms by (simp add: charCode_def)
  then show ?thesis using toLowerCaseChar_range[OF False] by auto
qed

lemma sharp_s_absent_after_rule: "CHR 0xDF \<notin> set s \<Longrightarrow> CHR 0xDF \<notin> set (applyRule s h)"
  by (rule absent_after_rule) (auto simp: toLowerCaseChar_sharp_s)

subsection \<open>Rule lists\<close>

lemma applyRules_Nil [simp]: "applyRules [] s = s"
  by (simp add: applyRules_def)

lemma applyRules_Cons [simp]: "applyRules (h # rules) s = applyRules rules (applyRule s h)"
  by (simp add: applyRules_def)

lemma applyRules_fixed:
  "\<forall>rule \<in> set rules. applyRule s rule = s \<Longrightarrow> applyRules rules s = s"
  by (induction rules) simp_all

text \<open>
  A shape that no rule destroys holds at the end of every list that has its
  rule.
\<close>

lemma lasting_shape:
  assumes "\<And>s h. settled r s \<Longrightarrow> settled r (applyRule s h)"
  shows "r \<in> set rules \<or> settled r s \<Longrightarrow> settled r (applyRules rules s)"
proof (induction rules arbitrary: s)
  case Nil
  then show ?case by simp
next
  case (Cons h rules)
  have "r \<in> set rules \<or> settled r (applyRule s h)"
    using Cons.prems assms settled_applyRule by auto
  then show ?case using Cons.IH by simp
qed

text \<open>
  A shape that only the rule \<open>g\<close> destroys, where the shape of \<open>g\<close> itself
  lasts: it survives a list in which \<open>g\<close> does not occur or has no effect
  any more.
\<close>

lemma kept_shape:
  assumes lasting: "\<And>s h. settled g s \<Longrightarrow> settled g (applyRule s h)"
    and others: "\<And>s h. h \<noteq> g \<Longrightarrow> settled r s \<Longrightarrow> settled r (applyRule s h)"
  shows "settled r s \<Longrightarrow> g \<notin> set rules \<or> settled g s \<Longrightarrow> settled r (applyRules rules s)"
proof (induction rules arbitrary: s)
  case Nil
  then show ?case by simp
next
  case (Cons h rules)
  have a: "settled r (applyRule s h)"
  proof (cases "settled g s \<and> h = g")
    case True
    then show ?thesis using Cons.prems(1) by (simp add: settled_fixed)
  next
    case False
    then have "h \<noteq> g" using Cons.prems(2) by auto
    then show ?thesis using Cons.prems(1) others by simp
  qed
  have b: "g \<notin> set rules \<or> settled g (applyRule s h)"
    using Cons.prems(2) lasting by auto
  show ?case using Cons.IH[OF a b] by simp
qed

lemma lastBeforeFirst_Cons:
  "h \<noteq> g \<Longrightarrow> lastBeforeFirst f g rules \<Longrightarrow> lastBeforeFirst f g (h # rules)"
  by (simp add: lastBeforeFirst_def)

lemma reached_shape:
  assumes lasting: "\<And>s h. settled g s \<Longrightarrow> settled g (applyRule s h)"
    and others: "\<And>s h. h \<noteq> g \<Longrightarrow> settled r s \<Longrightarrow> settled r (applyRule s h)"
  shows "r \<in> set rules \<Longrightarrow> settled g s \<or> \<not> lastBeforeFirst r g rules
           \<Longrightarrow> settled r (applyRules rules s)"
proof (induction rules arbitrary: s)
  case Nil
  then show ?case by simp
next
  case (Cons h rules)
  show ?case
  proof (cases "r \<in> set rules")
    case True
    have "settled g (applyRule s h) \<or> \<not> lastBeforeFirst r g rules"
    proof (cases "settled g s")
      case True
      then show ?thesis using lasting by simp
    next
      case False
      then have n: "\<not> lastBeforeFirst r g (h # rules)" using Cons.prems(2) by simp
      show ?thesis
      proof (cases "h = g")
        case True
        then show ?thesis using settled_applyRule by simp
      next
        case False
        then show ?thesis using n lastBeforeFirst_Cons by blast
      qed
    qed
    then show ?thesis using Cons.IH[OF True] by simp
  next
    case False
    then have h: "h = r" using Cons.prems(1) by simp
    have a: "settled r (applyRule s h)" using h settled_applyRule by simp
    have b: "g \<notin> set rules \<or> settled g (applyRule s h)"
    proof (cases "settled g s")
      case True
      then show ?thesis using lasting by simp
    next
      case False
      then have n: "\<not> lastBeforeFirst r g (h # rules)" using Cons.prems(2) by simp
      show ?thesis
      proof (cases "r = g")
        case True
        then show ?thesis using a by simp
      next
        case neq: False
        have "r \<notin> set (dropWhile (\<lambda>x. x \<noteq> g) rules)"
          using \<open>r \<notin> set rules\<close> set_dropWhileD by fast
        then show ?thesis using n neq h by (simp add: lastBeforeFirst_def)
      qed
    qed
    show ?thesis using kept_shape[OF lasting others a b] by simp
  qed
qed

text \<open>The shapes of the nine rules at the end of a pass.\<close>

lemma settled_lowercase: "settled ''lowercase'' s = lowered s"
  by (simp add: settled_def)

lemma settled_trim: "settled ''trim'' s = trimmed s"
  by (simp add: settled_def)

lemma settled_collapse: "settled ''collapse-spaces'' s = collapsed s"
  by (simp add: settled_def)

lemma settled_spaces: "settled ''remove-spaces'' s = spaceFree s"
  by (simp add: settled_def replaceRule_def)

lemma settled_punctuation: "settled ''remove-punctuation'' s = punctuationFree s"
  by (simp add: settled_def replaceRule_def)

lemma settled_replace:
  "settled (replaceRule (CHR 0xE4) ''ae'') s = (CHR 0xE4 \<notin> set s)"
  "settled (replaceRule (CHR 0xF6) ''oe'') s = (CHR 0xF6 \<notin> set s)"
  "settled (replaceRule (CHR 0xFC) ''ue'') s = (CHR 0xFC \<notin> set s)"
  "settled (replaceRule (CHR 0xDF) ''ss'') s = (CHR 0xDF \<notin> set s)"
  by (simp_all add: settled_def replaceRule_def)

lemma spaceFree_applyRules:
  "''remove-spaces'' \<in> set rules \<Longrightarrow> spaceFree (applyRules rules s)"
  using lasting_shape[of "''remove-spaces''" rules s]
  by (simp add: settled_spaces spaceFree_applyRule)

lemma umlaut_settled:
  assumes "x \<in> {CHR 0xE4, CHR 0xF6, CHR 0xFC}" and shape: "\<And>s. settled r s = (x \<notin> set s)"
    and "r \<in> set rules" and "\<not> lastBeforeFirst r ''lowercase'' rules"
  shows "settled r (applyRules rules s)"
proof (rule reached_shape[where g = "''lowercase''"])
  show "\<And>s h. settled ''lowercase'' s \<Longrightarrow> settled ''lowercase'' (applyRule s h)"
    by (simp add: settled_lowercase lowered_applyRule)
  show "\<And>s h. h \<noteq> ''lowercase'' \<Longrightarrow> settled r s \<Longrightarrow> settled r (applyRule s h)"
    using assms(1) umlaut_absent_after_rule by (simp only: shape)
  show "r \<in> set rules" by (rule assms(3))
  show "settled ''lowercase'' s \<or> \<not> lastBeforeFirst r ''lowercase'' rules"
    using assms(4) by simp
qed

lemma white_space_settled:
  assumes "r = ''trim'' \<or> r = ''collapse-spaces''"
    and "r \<in> set rules"
    and "''remove-spaces'' \<in> set rules \<or> \<not> lastBeforeFirst r ''remove-punctuation'' rules"
  shows "settled r (applyRules rules s)"
proof (cases "''remove-spaces'' \<in> set rules")
  case True
  then have "spaceFree (applyRules rules s)" by (rule spaceFree_applyRules)
  then show ?thesis
    using assms(1) by (auto simp: settled_trim settled_collapse spaceFree_trimmed spaceFree_collapsed)
next
  case False
  show ?thesis
  proof (rule reached_shape[where g = "''remove-punctuation''"])
    show "\<And>s h. settled ''remove-punctuation'' s
            \<Longrightarrow> settled ''remove-punctuation'' (applyRule s h)"
      by (simp add: settled_punctuation punctuationFree_applyRule)
    show "\<And>s h. h \<noteq> ''remove-punctuation'' \<Longrightarrow> settled r s \<Longrightarrow> settled r (applyRule s h)"
      using assms(1)
      by (auto simp: settled_trim settled_collapse trimmed_applyRule collapsed_applyRule)
    show "r \<in> set rules" by (rule assms(2))
    show "settled ''remove-punctuation'' s \<or> \<not> lastBeforeFirst r ''remove-punctuation'' rules"
      using assms(3) False by simp
  qed
qed

lemma settled_unknown:
  "r \<noteq> ''lowercase'' \<Longrightarrow> r \<noteq> ''trim'' \<Longrightarrow> r \<noteq> ''collapse-spaces''
     \<Longrightarrow> r \<noteq> replaceRule (CHR 0xE4) ''ae'' \<Longrightarrow> r \<noteq> replaceRule (CHR 0xF6) ''oe''
     \<Longrightarrow> r \<noteq> replaceRule (CHR 0xFC) ''ue'' \<Longrightarrow> r \<noteq> replaceRule (CHR 0xDF) ''ss''
     \<Longrightarrow> r \<noteq> ''remove-spaces'' \<Longrightarrow> r \<noteq> ''remove-punctuation'' \<Longrightarrow> settled r s"
  by (simp add: settled_def)

lemma member_settled:
  assumes "\<not> orderBroken rules" and "r \<in> set rules"
  shows "settled r (applyRules rules s)"
proof -
  have o: "\<not> lastBeforeFirst (replaceRule (CHR 0xE4) ''ae'') ''lowercase'' rules"
    "\<not> lastBeforeFirst (replaceRule (CHR 0xF6) ''oe'') ''lowercase'' rules"
    "\<not> lastBeforeFirst (replaceRule (CHR 0xFC) ''ue'') ''lowercase'' rules"
    "''remove-spaces'' \<in> set rules \<or> \<not> lastBeforeFirst ''trim'' ''remove-punctuation'' rules"
    "''remove-spaces'' \<in> set rules
       \<or> \<not> lastBeforeFirst ''collapse-spaces'' ''remove-punctuation'' rules"
    using assms(1) unfolding orderBroken_def by blast+
  consider (lower) "r = ''lowercase''" | (spaces) "r = ''remove-spaces''"
    | (punct) "r = ''remove-punctuation''" | (sharp) "r = replaceRule (CHR 0xDF) ''ss''"
    | (trim) "r = ''trim''" | (collapse) "r = ''collapse-spaces''"
    | (ae) "r = replaceRule (CHR 0xE4) ''ae''" | (oe) "r = replaceRule (CHR 0xF6) ''oe''"
    | (ue) "r = replaceRule (CHR 0xFC) ''ue''"
    | (unknown) "settled r (applyRules rules s)"
    using settled_unknown[of r "applyRules rules s"] by blast
  then show ?thesis
  proof cases
    case lower
    have "settled ''lowercase'' (applyRules rules s)"
      using assms(2) lower by (intro lasting_shape) (simp_all add: settled_lowercase lowered_applyRule)
    then show ?thesis by (simp only: lower)
  next
    case spaces
    have "settled ''remove-spaces'' (applyRules rules s)"
      using assms(2) spaces
      by (intro lasting_shape) (simp_all add: settled_spaces spaceFree_applyRule)
    then show ?thesis by (simp only: spaces)
  next
    case punct
    have "settled ''remove-punctuation'' (applyRules rules s)"
      using assms(2) punct
      by (intro lasting_shape) (simp_all add: settled_punctuation punctuationFree_applyRule)
    then show ?thesis by (simp only: punct)
  next
    case sharp
    have "settled (replaceRule (CHR 0xDF) ''ss'') (applyRules rules s)"
      using assms(2) sharp
      by (intro lasting_shape) (simp_all add: settled_replace sharp_s_absent_after_rule)
    then show ?thesis by (simp only: sharp)
  next
    case trim
    have "settled ''trim'' (applyRules rules s)"
      using assms(2) trim o(4) by (intro white_space_settled) simp_all
    then show ?thesis by (simp only: trim)
  next
    case collapse
    have "settled ''collapse-spaces'' (applyRules rules s)"
      using assms(2) collapse o(5) by (intro white_space_settled) simp_all
    then show ?thesis by (simp only: collapse)
  next
    case ae
    have "settled (replaceRule (CHR 0xE4) ''ae'') (applyRules rules s)"
      using assms(2) ae o(1)
      by (intro umlaut_settled[where x = "CHR 0xE4"]) (simp_all add: settled_replace)
    then show ?thesis by (simp only: ae)
  next
    case oe
    have "settled (replaceRule (CHR 0xF6) ''oe'') (applyRules rules s)"
      using assms(2) oe o(2)
      by (intro umlaut_settled[where x = "CHR 0xF6"]) (simp_all add: settled_replace)
    then show ?thesis by (simp only: oe)
  next
    case ue
    have "settled (replaceRule (CHR 0xFC) ''ue'') (applyRules rules s)"
      using assms(2) ue o(3)
      by (intro umlaut_settled[where x = "CHR 0xFC"]) (simp_all add: settled_replace)
    then show ?thesis by (simp only: ue)
  next
    case unknown
    then show ?thesis .
  qed
qed

lemma applyRules_idempotent:
  assumes "\<not> orderBroken rules"
  shows "applyRules rules (applyRules rules s) = applyRules rules s"
proof (rule applyRules_fixed, rule ballI)
  fix rule assume "rule \<in> set rules"
  then have "settled rule (applyRules rules s)"
    using assms by (rule member_settled[rotated])
  then show "applyRule (applyRules rules s) rule = applyRules rules s"
    by (rule settled_fixed)
qed

subsection \<open>Texts that a second pass changes\<close>

text \<open>
  A text \<open>x\<close> that only \<open>g\<close> changes, into \<open>y\<close>, which only \<open>f\<close> changes,
  into \<open>z\<close>, which no rule changes: if the last \<open>f\<close> stands before the first
  \<open>g\<close>, the first pass stops at \<open>y\<close> and the second goes on to \<open>z\<close>.
\<close>

lemma first_effect:
  "g \<in> set rules \<Longrightarrow> \<forall>r \<in> set rules. r \<noteq> g \<longrightarrow> applyRule x r = x
     \<Longrightarrow> \<forall>r \<in> set (dropWhile (\<lambda>r. r \<noteq> g) rules). applyRule (applyRule x g) r = applyRule x g
     \<Longrightarrow> applyRules rules x = applyRule x g"
proof (induction rules)
  case Nil
  then show ?case by simp
next
  case (Cons h rules)
  show ?case
  proof (cases "h = g")
    case True
    then show ?thesis using Cons.prems(3) by (simp add: applyRules_fixed)
  next
    case False
    then show ?thesis using Cons by simp
  qed
qed

lemma two_passes:
  assumes "lastBeforeFirst f g rules"
    and x: "\<And>h. h \<in> set rules \<Longrightarrow> h \<noteq> g \<Longrightarrow> settled h x" "applyRule x g = y"
    and y: "\<And>h. h \<in> set rules \<Longrightarrow> h \<noteq> f \<Longrightarrow> settled h y" "applyRule y f = z"
    and z: "\<And>h. h \<in> set rules \<Longrightarrow> settled h z"
  shows "applyRules rules x = y \<and> applyRules rules y = z"
proof -
  have m: "f \<in> set rules" "g \<in> set rules" "f \<notin> set (dropWhile (\<lambda>r. r \<noteq> g) rules)"
    using assms(1) by (simp_all add: lastBeforeFirst_def)
  have "\<forall>r \<in> set (dropWhile (\<lambda>r. r \<noteq> g) rules). applyRule y r = y"
    using m(3) y(1) settled_fixed set_dropWhileD by metis
  moreover have "\<forall>r \<in> set rules. r \<noteq> g \<longrightarrow> applyRule x r = x"
    using x(1) settled_fixed by blast
  ultimately have one: "applyRules rules x = y"
    using first_effect[of g rules x] m(2) x(2) by simp
  have "\<forall>r \<in> set (dropWhile (\<lambda>r. r \<noteq> f) rules). applyRule z r = z"
    using z settled_fixed set_dropWhileD by metis
  moreover have "\<forall>r \<in> set rules. r \<noteq> f \<longrightarrow> applyRule y r = y"
    using y(1) settled_fixed by blast
  ultimately have two: "applyRules rules y = z"
    using first_effect[of f rules y] m(1) y(2) by simp
  show ?thesis using one two by simp
qed

lemma settledI:
  assumes "h = ''lowercase'' \<longrightarrow> lowered w" and "h = ''trim'' \<longrightarrow> trimmed w"
    and "h = ''collapse-spaces'' \<longrightarrow> collapsed w"
    and "h = replaceRule (CHR 0xE4) ''ae'' \<longrightarrow> CHR 0xE4 \<notin> set w"
    and "h = replaceRule (CHR 0xF6) ''oe'' \<longrightarrow> CHR 0xF6 \<notin> set w"
    and "h = replaceRule (CHR 0xFC) ''ue'' \<longrightarrow> CHR 0xFC \<notin> set w"
    and "h = replaceRule (CHR 0xDF) ''ss'' \<longrightarrow> CHR 0xDF \<notin> set w"
    and "h = ''remove-spaces'' \<longrightarrow> spaceFree w"
    and "h = ''remove-punctuation'' \<longrightarrow> punctuationFree w"
  shows "settled h w"
  using assms by (simp add: settled_def)

lemma replaceRule_distinct:
  "replaceRule (CHR 0xE4) ''ae'' \<noteq> replaceRule (CHR 0xF6) ''oe''"
  "replaceRule (CHR 0xE4) ''ae'' \<noteq> replaceRule (CHR 0xFC) ''ue''"
  "replaceRule (CHR 0xE4) ''ae'' \<noteq> replaceRule (CHR 0xDF) ''ss''"
  "replaceRule (CHR 0xF6) ''oe'' \<noteq> replaceRule (CHR 0xFC) ''ue''"
  "replaceRule (CHR 0xF6) ''oe'' \<noteq> replaceRule (CHR 0xDF) ''ss''"
  "replaceRule (CHR 0xFC) ''ue'' \<noteq> replaceRule (CHR 0xDF) ''ss''"
  by (simp_all add: replaceRule_def)

lemma plain_words:
  "\<And>h. settled h ''ae''" "\<And>h. settled h ''oe''" "\<And>h. settled h ''ue''" "\<And>h. settled h ''a''"
  by (rule settledI; simp add: lowered_def trimmed_def spaceFree_def punctuationFree_def
      toLowerCaseChar_def isWhiteSpace_def charCode_def)+

lemma small_umlauts:
  "\<And>h. h \<noteq> replaceRule (CHR 0xE4) ''ae'' \<Longrightarrow> settled h [CHR 0xE4]"
  "\<And>h. h \<noteq> replaceRule (CHR 0xF6) ''oe'' \<Longrightarrow> settled h [CHR 0xF6]"
  "\<And>h. h \<noteq> replaceRule (CHR 0xFC) ''ue'' \<Longrightarrow> settled h [CHR 0xFC]"
  by (rule settledI; simp add: lowered_def trimmed_def spaceFree_def punctuationFree_def
      toLowerCaseChar_def isWhiteSpace_def charCode_def)+

lemma capital_umlauts:
  "\<And>h. h \<noteq> ''lowercase'' \<Longrightarrow> settled h [CHR 0xC4]"
  "\<And>h. h \<noteq> ''lowercase'' \<Longrightarrow> settled h [CHR 0xD6]"
  "\<And>h. h \<noteq> ''lowercase'' \<Longrightarrow> settled h [CHR 0xDC]"
  by (rule settledI; simp add: lowered_def trimmed_def spaceFree_def punctuationFree_def
      toLowerCaseChar_def isWhiteSpace_def charCode_def)+

lemma covered_spaces:
  "\<And>h. h \<noteq> ''remove-punctuation'' \<Longrightarrow> h \<noteq> ''remove-spaces'' \<Longrightarrow> settled h ''. a''"
  "\<And>h. h \<noteq> ''trim'' \<Longrightarrow> h \<noteq> ''remove-spaces'' \<Longrightarrow> settled h '' a''"
  "\<And>h. h \<noteq> ''remove-punctuation'' \<Longrightarrow> h \<noteq> ''remove-spaces'' \<Longrightarrow> settled h ''a - b''"
  "\<And>h. h \<noteq> ''collapse-spaces'' \<Longrightarrow> h \<noteq> ''remove-spaces'' \<Longrightarrow> settled h ''a  b''"
  "\<And>h. h \<noteq> ''remove-spaces'' \<Longrightarrow> settled h ''a b''"
  by (rule settledI; simp add: lowered_def trimmed_def spaceFree_def punctuationFree_def
      toLowerCaseChar_def isWhiteSpace_def charCode_def)+

lemma word_steps:
  "applyRule [CHR 0xC4] ''lowercase'' = [CHR 0xE4]"
  "applyRule [CHR 0xD6] ''lowercase'' = [CHR 0xF6]"
  "applyRule [CHR 0xDC] ''lowercase'' = [CHR 0xFC]"
  "applyRule [CHR 0xE4] (replaceRule (CHR 0xE4) ''ae'') = ''ae''"
  "applyRule [CHR 0xF6] (replaceRule (CHR 0xF6) ''oe'') = ''oe''"
  "applyRule [CHR 0xFC] (replaceRule (CHR 0xFC) ''ue'') = ''ue''"
  "applyRule ''. a'' ''remove-punctuation'' = '' a''"
  "applyRule '' a'' ''trim'' = ''a''"
  "applyRule ''a - b'' ''remove-punctuation'' = ''a  b''"
  "applyRule ''a  b'' ''collapse-spaces'' = ''a b''"
  by code_simp+

lemma applyRules_not_idempotent:
  assumes "orderBroken rules"
  shows "\<exists>a. a \<noteq> [] \<and> applyRules rules a \<noteq> [] \<and>
             applyRules rules (applyRules rules a) \<noteq> applyRules rules a"
proof -
  have two: "\<And>x y z. applyRules rules x = y \<and> applyRules rules y = z \<Longrightarrow> x \<noteq> [] \<Longrightarrow> y \<noteq> []
                 \<Longrightarrow> z \<noteq> y \<Longrightarrow> ?thesis"
    by auto
  consider (ae) "lastBeforeFirst (replaceRule (CHR 0xE4) ''ae'') ''lowercase'' rules"
    | (oe) "lastBeforeFirst (replaceRule (CHR 0xF6) ''oe'') ''lowercase'' rules"
    | (ue) "lastBeforeFirst (replaceRule (CHR 0xFC) ''ue'') ''lowercase'' rules"
    | (trim) "''remove-spaces'' \<notin> set rules"
        "lastBeforeFirst ''trim'' ''remove-punctuation'' rules"
    | (collapse) "''remove-spaces'' \<notin> set rules"
        "lastBeforeFirst ''collapse-spaces'' ''remove-punctuation'' rules"
    using assms unfolding orderBroken_def by blast
  then show ?thesis
  proof cases
    case ae
    have "applyRules rules [CHR 0xC4] = [CHR 0xE4] \<and> applyRules rules [CHR 0xE4] = ''ae''"
      using ae
      by (rule two_passes) (simp_all add: capital_umlauts small_umlauts plain_words word_steps)
    then show ?thesis by (rule two) simp_all
  next
    case oe
    have "applyRules rules [CHR 0xD6] = [CHR 0xF6] \<and> applyRules rules [CHR 0xF6] = ''oe''"
      using oe
      by (rule two_passes) (simp_all add: capital_umlauts small_umlauts plain_words word_steps)
    then show ?thesis by (rule two) simp_all
  next
    case ue
    have "applyRules rules [CHR 0xDC] = [CHR 0xFC] \<and> applyRules rules [CHR 0xFC] = ''ue''"
      using ue
      by (rule two_passes) (simp_all add: capital_umlauts small_umlauts plain_words word_steps)
    then show ?thesis by (rule two) simp_all
  next
    case trim
    have n: "\<And>h. h \<in> set rules \<Longrightarrow> h \<noteq> ''remove-spaces''" using trim(1) by blast
    have "applyRules rules ''. a'' = '' a'' \<and> applyRules rules '' a'' = ''a''"
      using trim(2)
      by (rule two_passes) (simp_all add: n covered_spaces plain_words word_steps)
    then show ?thesis by (rule two) simp_all
  next
    case collapse
    have n: "\<And>h. h \<in> set rules \<Longrightarrow> h \<noteq> ''remove-spaces''" using collapse(1) by blast
    have "applyRules rules ''a - b'' = ''a  b'' \<and> applyRules rules ''a  b'' = ''a b''"
      using collapse(2)
      by (rule two_passes) (simp_all add: n covered_spaces word_steps)
    then show ?thesis by (rule two) simp_all
  qed
qed

section \<open>Normalising twice\<close>

lemma normalizeAnswer_twice:
  "\<not> orderBroken (normalizeRules config)
     \<Longrightarrow> normalizeAnswer (normalizeAnswer answer config) config = normalizeAnswer answer config"
  by (simp add: normalizeAnswer_def applyRules_idempotent)

lemma normalizeAnswer_changes_twice:
  assumes "orderBroken (normalizeRules config)"
  shows "\<exists>a. normalizeAnswer (normalizeAnswer a config) config \<noteq> normalizeAnswer a config"
proof -
  obtain a where "a \<noteq> []" "applyRules (normalizeRules config) a \<noteq> []"
    "applyRules (normalizeRules config) (applyRules (normalizeRules config) a)
       \<noteq> applyRules (normalizeRules config) a"
    using applyRules_not_idempotent[OF assms] by blast
  then have "normalizeAnswer (normalizeAnswer a config) config \<noteq> normalizeAnswer a config"
    by (simp add: normalizeAnswer_def)
  then show ?thesis by blast
qed

lemma normalizeRules_kuechenklausConfig:
  "normalizeRules kuechenklausConfig
     = [''lowercase'', ''trim'', ''collapse-spaces'', replaceRule (CHR 0xE4) ''ae'']"
  by code_simp

lemma normalizeRules_trimThenPunctuationConfig:
  "normalizeRules trimThenPunctuationConfig = [''trim'', ''remove-punctuation'']"
  by code_simp

text \<open>The two rule lists of the repository are in a good order.\<close>

lemma default_rules_idempotent:
  assumes "normalize config = None"
  shows "normalizeAnswer (normalizeAnswer answer config) config = normalizeAnswer answer config"
proof -
  have r: "normalizeRules config = [''lowercase'', ''trim'', ''collapse-spaces'']"
    using normalizeRules_plasmafilterConfig
    by (simp add: normalizeRules_def plasmafilterConfig_def assms)
  have "\<not> orderBroken (normalizeRules config)"
    by (simp add: r orderBroken_def lastBeforeFirst_def replaceRule_def)
  then show ?thesis by (rule normalizeAnswer_twice)
qed

lemma kuechenklaus_rules_in_order: "\<not> orderBroken (normalizeRules kuechenklausConfig)"
  by (simp add: normalizeRules_kuechenklausConfig orderBroken_def lastBeforeFirst_def
      replaceRule_def)

lemma trim_then_punctuation_out_of_order:
  "orderBroken (normalizeRules trimThenPunctuationConfig)"
  by (simp add: normalizeRules_trimThenPunctuationConfig orderBroken_def lastBeforeFirst_def
      replaceRule_def)

text \<open>
  Claim C9 as stated fails: with the rules \<open>trim, remove-punctuation\<close> the
  answer \<open>". a"\<close> is normalised to \<open>" a"\<close> (the full stop goes after the
  trimming, and uncovers a space), and normalising that again gives \<open>"a"\<close>.
\<close>

theorem normalizeAnswer_not_idempotent:
  "normalizeAnswer
     (normalizeAnswer ''. a''
        \<lparr>normalize = Some ''trim, remove-punctuation'', accepted = None,
         answer_hashes = None, salt = None\<rparr>)
     \<lparr>normalize = Some ''trim, remove-punctuation'', accepted = None,
      answer_hashes = None, salt = None\<rparr>
   \<noteq> normalizeAnswer ''. a''
       \<lparr>normalize = Some ''trim, remove-punctuation'', accepted = None,
        answer_hashes = None, salt = None\<rparr>"
  by code_simp

text \<open>
  Claim C9, amended. Answers are texts of code units below 256 (ISO-8859-1), as
  everywhere in this theory. Normalising a normalised answer again with the
  same configuration changes nothing, for every such answer, unless the rule
  list of the configuration is in one of the following orders; and in each of
  these orders some answer is changed by the second pass.
  \<^item> The replacement of a-umlaut by \<open>ae\<close>, of o-umlaut by \<open>oe\<close> or of
    u-umlaut by \<open>ue\<close> occurs, \<open>lowercase\<close> occurs, and the replacement
    does not occur at or after the first \<open>lowercase\<close>.
  \<^item> \<open>remove-spaces\<close> does not occur, \<open>remove-punctuation\<close> occurs, and
    \<open>trim\<close> (or \<open>collapse-spaces\<close>) occurs, but not at or after the first
    \<open>remove-punctuation\<close>.

  Every other list is idempotent: the default list, the list \<open>lowercase, trim,
  collapse-spaces\<close> followed by the replacement of a-umlaut (the one of the
  mock data), lists with unknown names, with repeated rules, and with the
  replacement of sharp s at any place.
\<close>

theorem normalizeAnswer_idempotent_iff_rules_in_order:
  "(\<not> orderBroken (normalizeRules config)
      \<longrightarrow> normalizeAnswer (normalizeAnswer answer config) config = normalizeAnswer answer config)
   \<and> (orderBroken (normalizeRules config)
      \<longrightarrow> (\<exists>a. normalizeAnswer (normalizeAnswer a config) config \<noteq> normalizeAnswer a config))"
  using normalizeAnswer_twice normalizeAnswer_changes_twice by blast

theorem normalizeAnswer_idempotent_iff_rules_in_order_witness:
  "\<not> orderBroken (normalizeRules kuechenklausConfig)
   \<and> normalizeAnswer ('' K'' @ [CHR 0xC4] @ ''SE-  Kuchen. '') kuechenklausConfig
       = ''kaese- kuchen.''
   \<and> normalizeAnswer
       (normalizeAnswer ('' K'' @ [CHR 0xC4] @ ''SE-  Kuchen. '') kuechenklausConfig)
       kuechenklausConfig
     = normalizeAnswer ('' K'' @ [CHR 0xC4] @ ''SE-  Kuchen. '') kuechenklausConfig
   \<and> orderBroken (normalizeRules trimThenPunctuationConfig)
   \<and> (\<exists>a. normalizeAnswer (normalizeAnswer a trimThenPunctuationConfig)
             trimThenPunctuationConfig
           \<noteq> normalizeAnswer a trimThenPunctuationConfig)"
proof -
  have e: "normalizeAnswer ('' K'' @ [CHR 0xC4] @ ''SE-  Kuchen. '') kuechenklausConfig
             = ''kaese- kuchen.''"
    by code_simp
  show ?thesis
    using normalizeAnswer_idempotent_iff_rules_in_order
            [of kuechenklausConfig "'' K'' @ [CHR 0xC4] @ ''SE-  Kuchen. ''"]
          normalizeAnswer_idempotent_iff_rules_in_order[of trimThenPunctuationConfig]
          kuechenklaus_rules_in_order trim_then_punctuation_out_of_order e
    by simp
qed

section \<open>Expected data\<close>

lemma validateExpectedData_valid_iff:
  "dv_valid (validateExpectedData p expected) \<longleftrightarrow>
     (\<forall>(k, v) \<in> set expected.
        getProperty p k \<noteq> Undefined \<and> (v = JNull \<or> strictEquals (getProperty p k) v))"
  by (induction expected) (auto simp: Let_def split: if_splits)

lemma validateExpectedData_error:
  "\<not> dv_valid (validateExpectedData p expected)
     \<Longrightarrow> contextMismatch (dv_error (validateExpectedData p expected))"
  by (induction expected) (auto simp: Let_def split: if_splits)

lemma validateExpectedData_no_error:
  "dv_valid (validateExpectedData p expected)
     \<Longrightarrow> dv_error (validateExpectedData p expected) = None"
  by (induction expected) (auto simp: Let_def split: if_splits)

section \<open>The two paths of verifyHMAC\<close>

text \<open>
  With the Web Crypto API present the verification never gets as far as the
  comparison: the key was imported for \<open>'verify'\<close>, and \<open>sign\<close> throws.
\<close>

lemma verifyHMACWebCrypto_throws:
  "verifyHMACWebCrypto crypto now parsed keyData expectedData =
     Inl (if rejectsKey crypto (key keyData) then ImportKeyError else InvalidAccessError)"
  by (simp add: verifyHMACWebCrypto_def importKey_def sign_def)

lemma verifyHMAC_webCrypto:
  assumes "keyId parsed = Some kid" and "publicKeys env kid = Some keyData"
    and "subtle env = Some crypto"
  shows "verifyHMAC env now parsed expectedData =
           hmacFailure now parsed
             (CryptoException (if rejectsKey crypto (key keyData) then ImportKeyError
                               else InvalidAccessError))"
  using assms by (simp add: verifyHMAC_def verifyHMACWebCrypto_throws)

lemma verifyHMAC_fallback:
  assumes "keyId parsed = Some kid" and "publicKeys env kid = Some keyData"
    and "subtle env = None"
  shows "verifyHMAC env now parsed expectedData =
           verifyHMACFallback now parsed keyData expectedData"
  using assms by (simp add: verifyHMAC_def)

lemma verifyHMAC_unknown_key:
  assumes "(case keyId parsed of None \<Rightarrow> None | Some k \<Rightarrow> publicKeys env k) = None"
  shows "verifyHMAC env now parsed expectedData =
           hmacFailure now parsed (UnknownKeyId (keyId parsed))"
  using assms by (simp add: verifyHMAC_def)

lemma verifyHMAC_valid_iff:
  "valid (verifyHMAC env now parsed expectedData) \<longleftrightarrow>
     (\<exists>kid keyData. keyId parsed = Some kid \<and> publicKeys env kid = Some keyData
        \<and> subtle env = None
        \<and> simpleHashCompare (key keyData @ originalData parsed) (signature parsed)
        \<and> dv_valid (validateExpectedData (payload parsed) expectedData))"
  by (auto simp: verifyHMAC_def verifyHMACWebCrypto_throws verifyHMACFallback_def
      hmacFailure_def Let_def split: option.splits)

lemma example_signature:
  "simpleHashCompare
     (''winter2025_secret_key_demo_only'' @ ''eyJkYXkiOjIsImtpbmQiOiJzdGFnZTIifQ=='')
     (Some ''37572ec7'')"
  by code_simp

lemma example_fallback:
  "verifyHMAC fallbackEnv now (exampleToken (Some ''37572ec7'')) expectedData =
     \<lparr>valid = dv_valid (validateExpectedData
                [(''day'', JNum 2), (''kind'', JStr ''stage2'')] expectedData),
      error = dv_error (validateExpectedData
                [(''day'', JNum 2), (''kind'', JStr ''stage2'')] expectedData),
      res_algorithm = ''HMAC-Fallback'', res_keyId = Some ''winter2025'',
      res_payload = Some [(''day'', JNum 2), (''kind'', JStr ''stage2'')],
      timestamp = now\<rparr>"
  using example_signature
  by (simp add: verifyHMAC_def verifyHMACFallback_def fallbackEnv_def predefinedKeys_def
      exampleToken_def Let_def)

text \<open>
  Claim C4 as stated fails. The token of the example carries the signature that
  the fallback comparison computes for it. Its payload has \<open>day = 2\<close>, the
  caller expects \<open>day: null\<close>, and the result is valid; its payload has no
  field \<open>toString\<close>, the caller expects \<open>toString: null\<close>, and the result
  is valid as well.
\<close>

theorem null_expectation_is_never_disagreed_with:
  "getProperty (payload (exampleToken (Some ''37572ec7''))) ''day'' = Own (JNum 2)
   \<and> valid (verifyHMAC fallbackEnv 0 (exampleToken (Some ''37572ec7'')) [(''day'', JNull)])
   \<and> map_of (payload (exampleToken (Some ''37572ec7''))) ''toString'' = None
   \<and> valid (verifyHMAC fallbackEnv 0 (exampleToken (Some ''37572ec7''))
              [(''toString'', JNull)])"
proof -
  have p: "getProperty (payload (exampleToken (Some ''37572ec7''))) ''day'' = Own (JNum 2)"
    and q: "map_of (payload (exampleToken (Some ''37572ec7''))) ''toString'' = None"
    by (simp_all add: exampleToken_def getProperty_def)
  have v: "valid (verifyHMAC fallbackEnv 0 (exampleToken (Some ''37572ec7'')) [(''day'', JNull)])"
    and w: "valid (verifyHMAC fallbackEnv 0 (exampleToken (Some ''37572ec7''))
                    [(''toString'', JNull)])"
    by (simp_all add: example_fallback getProperty_def objectPrototypeKeys_def)
  from p v q w show ?thesis by blast
qed

text \<open>
  Claim C4, amended. If the expected data name a field for which
  \<open>payload[key]\<close> is undefined, or give it a value other than \<open>null\<close> that
  is not strictly equal to \<open>payload[key]\<close>, the result of \<open>verifyHMAC\<close> is
  not valid, whatever the signature; and when the key is known and the fallback
  comparison accepts the signature, the error is one of the two messages of
  \<open>validateExpectedData\<close>.
\<close>

theorem mismatch_with_expected_data_is_invalid:
  assumes "(k, expectedValue) \<in> set expectedData"
    and "getProperty (payload parsed) k = Undefined
         \<or> (expectedValue \<noteq> JNull \<and> \<not> strictEquals (getProperty (payload parsed) k) expectedValue)"
  shows "\<not> valid (verifyHMAC env now parsed expectedData)
       \<and> (keyId parsed = Some kid \<and> publicKeys env kid = Some keyData \<and> subtle env = None
            \<and> simpleHashCompare (key keyData @ originalData parsed) (signature parsed)
          \<longrightarrow> contextMismatch (error (verifyHMAC env now parsed expectedData)))"
proof -
  have nv: "\<not> dv_valid (validateExpectedData (payload parsed) expectedData)"
    using assms by (auto simp: validateExpectedData_valid_iff)
  then have ce: "contextMismatch (dv_error (validateExpectedData (payload parsed) expectedData))"
    by (rule validateExpectedData_error)
  have 1: "\<not> valid (verifyHMAC env now parsed expectedData)"
    using nv by (simp add: verifyHMAC_valid_iff)
  have 2: "contextMismatch (error (verifyHMAC env now parsed expectedData))"
    if "keyId parsed = Some kid" "publicKeys env kid = Some keyData" "subtle env = None"
      "simpleHashCompare (key keyData @ originalData parsed) (signature parsed)"
    using that ce by (simp add: verifyHMAC_fallback verifyHMACFallback_def Let_def)
  show ?thesis using 1 2 by blast
qed

theorem mismatch_with_expected_data_is_invalid_witness:
  "getProperty (payload (exampleToken (Some ''37572ec7''))) ''day'' = Own (JNum 2)
   \<and> valid (verifyHMAC fallbackEnv 0 (exampleToken (Some ''37572ec7'')) [(''day'', JNum 2)])
   \<and> \<not> valid (verifyHMAC fallbackEnv 0 (exampleToken (Some ''37572ec7'')) [(''day'', JNum 1)])
   \<and> contextMismatch
         (error (verifyHMAC fallbackEnv 0 (exampleToken (Some ''37572ec7'')) [(''day'', JNum 1)]))
   \<and> getProperty (payload (exampleToken (Some ''37572ec7''))) ''stage'' = Undefined
   \<and> \<not> valid (verifyHMAC fallbackEnv 0 (exampleToken (Some ''37572ec7'')) [(''stage'', JNull)])"
proof -
  let ?t = "exampleToken (Some ''37572ec7'')"
  let ?kd = "\<lparr>kd_algorithm = ''HMAC'', key = ''winter2025_secret_key_demo_only'',
              kd_keyId = ''winter2025'',
              description = ''Demo-Schl'' @ [CHR 0xFC] @ ''ssel f'' @ [CHR 0xFC]
                             @ ''r Winter Rallye 2025''\<rparr>"
  have p: "getProperty (payload ?t) ''day'' = Own (JNum 2)"
    "getProperty (payload ?t) ''stage'' = Undefined"
    by (simp_all add: exampleToken_def getProperty_def objectPrototypeKeys_def)
  have m1: "(''day'', JNum 1) \<in> set [(''day'', JNum 1)]" by simp
  have d1: "getProperty (payload ?t) ''day'' = Undefined
            \<or> (JNum 1 \<noteq> JNull \<and> \<not> strictEquals (getProperty (payload ?t) ''day'') (JNum 1))"
    by (simp add: p)
  have m2: "(''stage'', JNull) \<in> set [(''stage'', JNull)]" by simp
  have d2: "getProperty (payload ?t) ''stage'' = Undefined
            \<or> (JNull \<noteq> JNull \<and> \<not> strictEquals (getProperty (payload ?t) ''stage'') JNull)"
    by (simp add: p)
  have path: "keyId ?t = Some ''winter2025''" "publicKeys fallbackEnv ''winter2025'' = Some ?kd"
    "subtle fallbackEnv = None"
    "simpleHashCompare (key ?kd @ originalData ?t) (signature ?t)"
    using example_signature
    by (simp_all add: exampleToken_def fallbackEnv_def predefinedKeys_def)
  have ok: "valid (verifyHMAC fallbackEnv 0 ?t [(''day'', JNum 2)])"
    by (simp add: example_fallback getProperty_def)
  show ?thesis
    using p ok path
      mismatch_with_expected_data_is_invalid[OF m1 d1, where env = fallbackEnv and now = 0
        and kid = "''winter2025''" and keyData = ?kd]
      mismatch_with_expected_data_is_invalid[OF m2 d2, where env = fallbackEnv and now = 0
        and kid = "''winter2025''" and keyData = ?kd]
    by simp
qed

section \<open>Negative results and failed checks\<close>

text \<open>
  Claim C6 as stated fails: \<open>validateAnswer\<close> returns the same value, false,
  for a check that could not be made (answer hashes configured,
  \<open>SecurityStatic\<close> not loaded) and for a wrong answer against the accepted
  list.
\<close>

theorem failed_check_looks_like_wrong_answer:
  "validateAnswer None ''plasmafilter'' hashedConfig
     = validateAnswer None ''wrong'' plasmafilterConfig
   \<and> validateAnswerLogged None ''plasmafilter'' hashedConfig = (False, WarnSecurityStaticMissing)
   \<and> validateAnswerLogged None ''wrong'' plasmafilterConfig = (False, LogViaAccepted False)"
  by (simp add: validateAnswer_def validateAnswerLogged_def hashedConfig_def
      plasmafilterConfig_def)

text \<open>
  Claim C6, amended. The results carry no outcome with three values.
  \<open>validateAnswer\<close> returns false both when answer hashes are configured but
  \<open>SecurityStatic\<close> is missing and when the answer is not in the accepted
  list; only the console message differs. \<open>verifyHMAC\<close> returns
  \<open>valid = false\<close> in each of three cases, with these results: for an
  unknown key id, the message of the unknown key, the algorithm \<open>'HMAC'\<close> and no
  payload; with the Web Crypto API present, for every token with a known key,
  the exception of \<open>importKey\<close> or \<open>sign\<close>, the algorithm \<open>'HMAC'\<close> and no
  payload; without the Web Crypto API, for a signature that the fallback
  comparison rejects, the message of the invalid signature, the algorithm
  \<open>'HMAC-Fallback'\<close> and the payload.
\<close>

theorem valid_flag_is_false_for_failed_and_negative_checks:
  "(accepted config = None \<and> answer_hashes config = Some hashes \<longrightarrow>
      validateAnswerLogged None normalizedAnswer config = (False, WarnSecurityStaticMissing)
      \<and> \<not> validateAnswer None normalizedAnswer config)
   \<and> (accepted config = Some acc \<and> normalizedAnswer \<notin> set acc \<longrightarrow>
      validateAnswerLogged securityStatic normalizedAnswer config = (False, LogViaAccepted False)
      \<and> \<not> validateAnswer securityStatic normalizedAnswer config)
   \<and> ((case keyId parsed of None \<Rightarrow> None | Some k \<Rightarrow> publicKeys env k) = None \<longrightarrow>
      verifyHMAC env now parsed expectedData =
        \<lparr>valid = False, error = Some (UnknownKeyId (keyId parsed)),
         res_algorithm = ''HMAC'', res_keyId = keyId parsed, res_payload = None,
         timestamp = now\<rparr>)
   \<and> (keyId parsed = Some kid \<and> publicKeys env kid = Some keyData
       \<and> subtle env = Some crypto \<longrightarrow>
      verifyHMAC env now parsed expectedData =
        \<lparr>valid = False,
         error = Some (CryptoException
                        (if rejectsKey crypto (key keyData) then ImportKeyError
                         else InvalidAccessError)),
         res_algorithm = ''HMAC'', res_keyId = keyId parsed, res_payload = None,
         timestamp = now\<rparr>)
   \<and> (keyId parsed = Some kid \<and> publicKeys env kid = Some keyData
       \<and> subtle env = None
       \<and> \<not> simpleHashCompare (key keyData @ originalData parsed) (signature parsed) \<longrightarrow>
      verifyHMAC env now parsed expectedData =
        \<lparr>valid = False, error = Some InvalidSignatureFallback,
         res_algorithm = ''HMAC-Fallback'', res_keyId = keyId parsed,
         res_payload = Some (payload parsed), timestamp = now\<rparr>)"
  by (auto simp: validateAnswer_def validateAnswerLogged_def verifyHMAC_unknown_key
      verifyHMAC_webCrypto verifyHMAC_fallback verifyHMACFallback_def hmacFailure_def Let_def)

theorem valid_flag_is_false_for_failed_and_negative_checks_witness:
  "\<not> validateAnswer None ''plasmafilter'' hashedConfig
   \<and> \<not> validateAnswer None ''wrong'' plasmafilterConfig
   \<and> verifyHMAC \<lparr>publicKeys = (\<lambda>k. None), subtle = None\<rparr> 0 (exampleToken (Some ''37572ec7'')) []
       = \<lparr>valid = False, error = Some (UnknownKeyId (Some ''winter2025'')),
          res_algorithm = ''HMAC'', res_keyId = Some ''winter2025'', res_payload = None,
          timestamp = 0\<rparr>
   \<and> verifyHMAC webCryptoEnv 0 (exampleToken (Some ''37572ec7'')) []
       = \<lparr>valid = False, error = Some (CryptoException InvalidAccessError),
          res_algorithm = ''HMAC'', res_keyId = Some ''winter2025'', res_payload = None,
          timestamp = 0\<rparr>
   \<and> verifyHMAC fallbackEnv 0 (exampleToken (Some ''ffff'')) []
       = \<lparr>valid = False, error = Some InvalidSignatureFallback,
          res_algorithm = ''HMAC-Fallback'', res_keyId = Some ''winter2025'',
          res_payload = Some [(''day'', JNum 2), (''kind'', JStr ''stage2'')],
          timestamp = 0\<rparr>"
proof -
  let ?kd = "\<lparr>kd_algorithm = ''HMAC'', key = ''winter2025_secret_key_demo_only'',
              kd_keyId = ''winter2025'',
              description = ''Demo-Schl'' @ [CHR 0xFC] @ ''ssel f'' @ [CHR 0xFC]
                             @ ''r Winter Rallye 2025''\<rparr>"
  let ?crypto = "\<lparr>rejectsKey = (\<lambda>k. k = []), hmacSha256 = (\<lambda>k d. [])\<rparr>"
  have a: "accepted hashedConfig = None \<and> answer_hashes hashedConfig = Some [''5f2a'']"
    by (simp add: hashedConfig_def)
  have b: "accepted plasmafilterConfig = Some [''plasmafilter'', ''plasma-filter'']
           \<and> ''wrong'' \<notin> set [''plasmafilter'', ''plasma-filter'']"
    by (simp add: plasmafilterConfig_def)
  have c: "(case keyId (exampleToken (Some ''37572ec7'')) of None \<Rightarrow> None
            | Some k \<Rightarrow> publicKeys \<lparr>publicKeys = (\<lambda>k. None), subtle = None\<rparr> k) = None"
    by (simp add: exampleToken_def)
  have d: "keyId (exampleToken (Some ''37572ec7'')) = Some ''winter2025''
           \<and> publicKeys webCryptoEnv ''winter2025'' = Some ?kd
           \<and> subtle webCryptoEnv = Some ?crypto"
    by (simp add: exampleToken_def webCryptoEnv_def predefinedKeys_def)
  have bad: "\<not> simpleHashCompare
                 (''winter2025_secret_key_demo_only'' @ ''eyJkYXkiOjIsImtpbmQiOiJzdGFnZTIifQ=='')
                 (Some ''ffff'')"
    by code_simp
  have e: "keyId (exampleToken (Some ''ffff'')) = Some ''winter2025''
           \<and> publicKeys fallbackEnv ''winter2025'' = Some ?kd
           \<and> subtle fallbackEnv = None
           \<and> \<not> simpleHashCompare (key ?kd @ originalData (exampleToken (Some ''ffff'')))
                  (signature (exampleToken (Some ''ffff'')))"
    using bad by (simp add: exampleToken_def fallbackEnv_def predefinedKeys_def)
  have k: "keyId (exampleToken (Some ''37572ec7'')) = Some ''winter2025''"
    "keyId (exampleToken (Some ''ffff'')) = Some ''winter2025''"
    "payload (exampleToken (Some ''ffff'')) = [(''day'', JNum 2), (''kind'', JStr ''stage2'')]"
    by (simp_all add: exampleToken_def)
  show ?thesis
    using a b c d e
      valid_flag_is_false_for_failed_and_negative_checks
        [where config = hashedConfig and hashes = "[''5f2a'']"
           and normalizedAnswer = "''plasmafilter''"]
      valid_flag_is_false_for_failed_and_negative_checks
        [where config = plasmafilterConfig and acc = "[''plasmafilter'', ''plasma-filter'']"
           and normalizedAnswer = "''wrong''" and securityStatic = None]
      valid_flag_is_false_for_failed_and_negative_checks
        [where parsed = "exampleToken (Some ''37572ec7'')"
           and env = "\<lparr>publicKeys = (\<lambda>k. None), subtle = None\<rparr>"
           and now = 0 and expectedData = "[]"]
      valid_flag_is_false_for_failed_and_negative_checks
        [where parsed = "exampleToken (Some ''37572ec7'')" and env = webCryptoEnv
           and now = 0 and expectedData = "[]"
           and kid = "''winter2025''" and keyData = ?kd and crypto = ?crypto]
      valid_flag_is_false_for_failed_and_negative_checks
        [where parsed = "exampleToken (Some ''ffff'')" and env = fallbackEnv
           and now = 0 and expectedData = "[]"
           and kid = "''winter2025''" and keyData = ?kd]
    by (simp add: k)
qed

section \<open>The answer cache\<close>

lemma map_of_mapSet: "map_of (mapSet k v m) k = Some v"
proof (cases "k \<in> fst ` set m")
  case False
  then have "map_of m k = None" by (simp add: map_of_eq_None_iff)
  then show ?thesis using False by (simp add: mapSet_def map_add_def)
next
  case True
  have "k \<in> fst ` set xs \<Longrightarrow>
          map_of (map (\<lambda>(k', v'). if k' = k then (k', v) else (k', v')) xs) k = Some v" for xs
    by (induction xs) auto
  then show ?thesis using True by (simp add: mapSet_def)
qed

lemma map_of_cacheResult:
  "map_of (cacheResult cfg answerCache k r t) k = Some \<lparr>entry_result = r, entry_timestamp = t\<rparr>"
  by (simp add: cacheResult_def Let_def map_of_mapSet)

lemma verifyAnswer_hit:
  assumes "map_of answerCache (AnswerUtil_getCacheKey a pd) = Some c"
    and "now - entry_timestamp c < ttl (cache env)"
  shows "verifyAnswer env answerCache now finished a pd = (entry_result c, answerCache)"
  using assms by (simp add: verifyAnswer_def Let_def)

lemma verifyAnswer_miss:
  assumes "map_of answerCache (AnswerUtil_getCacheKey a pd) = None"
  shows "verifyAnswer env answerCache now finished a pd =
           ((verifyUncached env a pd)\<lparr>verificationTime := Some (finished - now)\<rparr>,
            cacheResult (cache env) answerCache (AnswerUtil_getCacheKey a pd)
              ((verifyUncached env a pd)\<lparr>verificationTime := Some (finished - now)\<rparr>) finished)"
  using assms by (simp add: verifyAnswer_def Let_def)

lemma example_keys_collide:
  "AnswerUtil_getCacheKey ''aln'' examplePuzzle = ''1s8ha''"
  "AnswerUtil_getCacheKey ''c00'' examplePuzzle = ''1s8ha''"
  by code_simp+

lemma example_uncached:
  "correct (verifyUncached exampleAnswerEnv ''aln'' examplePuzzle)"
  "\<not> correct (verifyUncached exampleAnswerEnv ''c00'' examplePuzzle)"
  by code_simp+

text \<open>
  Claim C8 as stated fails: the answers \<open>"aln"\<close> and \<open>"c00"\<close> have the same
  cache key for the example puzzle (as the tokens \<open>"Aa"\<close> and \<open>"BB"\<close> have
  for \<open>QRVerify\<close>). Verified on its own, \<open>"c00"\<close> is wrong; verified within
  the time to live after \<open>"aln"\<close>, it is reported correct.
\<close>

theorem colliding_answer_gets_cached_valid:
  "''aln'' \<noteq> ''c00''
   \<and> AnswerUtil_getCacheKey ''aln'' examplePuzzle = AnswerUtil_getCacheKey ''c00'' examplePuzzle
   \<and> QRVerify_getCacheKey ''Aa'' = QRVerify_getCacheKey ''BB''
   \<and> \<not> correct (fst (verifyAnswer exampleAnswerEnv [] 2000 2001 ''c00'' examplePuzzle))
   \<and> correct (fst (verifyAnswer exampleAnswerEnv
                     (snd (verifyAnswer exampleAnswerEnv [] 1000 1001 ''aln'' examplePuzzle))
                     2000 2001 ''c00'' examplePuzzle))"
proof -
  have q: "QRVerify_getCacheKey ''Aa'' = QRVerify_getCacheKey ''BB''"
    by code_simp
  have m: "map_of [] (AnswerUtil_getCacheKey x examplePuzzle) = (None :: cache_entry option)" for x
    by simp
  have fresh: "\<not> correct (fst (verifyAnswer exampleAnswerEnv [] 2000 2001 ''c00'' examplePuzzle))"
    by (simp add: verifyAnswer_miss[OF m] example_uncached)
  let ?r = "(verifyUncached exampleAnswerEnv ''aln'' examplePuzzle)\<lparr>verificationTime := Some (1001 - 1000)\<rparr>"
  have stored: "map_of (snd (verifyAnswer exampleAnswerEnv [] 1000 1001 ''aln'' examplePuzzle))
                  (AnswerUtil_getCacheKey ''c00'' examplePuzzle)
                = Some \<lparr>entry_result = ?r, entry_timestamp = 1001\<rparr>"
    unfolding verifyAnswer_miss[OF m] example_keys_collide(2) example_keys_collide(1)[symmetric]
    by (simp add: map_of_cacheResult)
  have t: "2000 - entry_timestamp \<lparr>entry_result = ?r, entry_timestamp = 1001\<rparr> < ttl (cache exampleAnswerEnv)"
    by (simp add: exampleAnswerEnv_def)
  have hit: "correct (fst (verifyAnswer exampleAnswerEnv
                     (snd (verifyAnswer exampleAnswerEnv [] 1000 1001 ''aln'' examplePuzzle))
                     2000 2001 ''c00'' examplePuzzle))"
    unfolding verifyAnswer_hit[OF stored t] by (simp add: example_uncached)
  show ?thesis using q fresh hit by (simp add: example_keys_collide)
qed

text \<open>
  Claim C8, amended. The cache of \<open>verifyAnswer\<close> is looked up by the cache
  key alone. When the key of a first input has no entry, and a second input
  with the same key is verified before the entry of the first is older than
  the time to live, the second verification returns the result of the first.
\<close>

theorem cache_decides_by_key_alone:
  assumes "AnswerUtil_getCacheKey a1 pd1 = AnswerUtil_getCacheKey a2 pd2"
    and "map_of answerCache (AnswerUtil_getCacheKey a1 pd1) = None"
    and "later - finished < ttl (cache env)"
  shows "fst (verifyAnswer env
               (snd (verifyAnswer env answerCache now finished a1 pd1))
               later finished2 a2 pd2)
         = fst (verifyAnswer env answerCache now finished a1 pd1)"
proof -
  let ?r = "(verifyUncached env a1 pd1)\<lparr>verificationTime := Some (finished - now)\<rparr>"
  let ?e = "\<lparr>entry_result = ?r, entry_timestamp = finished\<rparr>"
  have first: "fst (verifyAnswer env answerCache now finished a1 pd1) = ?r"
    by (simp add: verifyAnswer_miss[OF assms(2)])
  have stored: "map_of (snd (verifyAnswer env answerCache now finished a1 pd1))
                  (AnswerUtil_getCacheKey a2 pd2) = Some ?e"
    unfolding assms(1)[symmetric]
    by (simp add: verifyAnswer_miss[OF assms(2)] map_of_cacheResult)
  have t: "later - entry_timestamp ?e < ttl (cache env)"
    using assms(3) by simp
  show ?thesis
    unfolding verifyAnswer_hit[OF stored t] first by simp
qed

theorem cache_decides_by_key_alone_witness:
  "AnswerUtil_getCacheKey ''aln'' examplePuzzle = AnswerUtil_getCacheKey ''c00'' examplePuzzle
   \<and> map_of ([] :: answer_cache) (AnswerUtil_getCacheKey ''aln'' examplePuzzle) = None
   \<and> (2000::int) - 1001 < ttl (cache exampleAnswerEnv)
   \<and> fst (verifyAnswer exampleAnswerEnv
            (snd (verifyAnswer exampleAnswerEnv [] 1000 1001 ''aln'' examplePuzzle))
            2000 2001 ''c00'' examplePuzzle)
      = fst (verifyAnswer exampleAnswerEnv [] 1000 1001 ''aln'' examplePuzzle)"
proof -
  have 1: "AnswerUtil_getCacheKey ''aln'' examplePuzzle = AnswerUtil_getCacheKey ''c00'' examplePuzzle"
    by (simp add: example_keys_collide)
  have 2: "map_of ([] :: answer_cache) (AnswerUtil_getCacheKey ''aln'' examplePuzzle) = None"
    by simp
  have 3: "(2000::int) - 1001 < ttl (cache exampleAnswerEnv)"
    by (simp add: exampleAnswerEnv_def)
  show ?thesis
    using 1 2 3 cache_decides_by_key_alone[OF 1 2 3, of 1000 2001] by simp
qed

end
